theory Spec2Isabelle
  imports Main "HOL-Library.Char_ord" "HOL-Library.List_Lexorder"
begin

section \<open>Regular expressions of the URL functions\<close>

text \<open>
  The fragment of Python's \<^verbatim>\<open>re\<close> syntax that \<^verbatim>\<open>server.py\<close> uses: literals,
  \<^verbatim>\<open>r?\<close>, \<^verbatim>\<open>a|b\<close>, concatenation and a character class under \<^verbatim>\<open>+\<close>.
  \<open>matches r s\<close> lists, in the backtracking matcher's order of preference, what is
  left of \<open>s\<close> after each way of matching \<open>r\<close> at the start of \<open>s\<close>.
\<close>

datatype rx =
    Lit string
  | Opt rx
  | Alt rx rx
  | Seq rx rx
  | Plus "char \<Rightarrow> bool"

fun strip_prefix :: "string \<Rightarrow> string \<Rightarrow> string option" where
  "strip_prefix [] s = Some s"
| "strip_prefix (p # ps) [] = None"
| "strip_prefix (p # ps) (c # cs) = (if p = c then strip_prefix ps cs else None)"

fun matches :: "rx \<Rightarrow> string \<Rightarrow> string list" where
  "matches (Lit p) s = (case strip_prefix p s of None \<Rightarrow> [] | Some r \<Rightarrow> [r])"
| "matches (Opt r) s = matches r s @ [s]"
| "matches (Alt a b) s = matches a s @ matches b s"
| "matches (Seq a b) s = concat (map (matches b) (matches a s))"
| "matches (Plus cls) s =
     map (\<lambda>k. drop k s) (rev [1 ..< Suc (length (takeWhile cls s))])"

text \<open>\<^verbatim>\<open>bool(re.match(r, s))\<close>: some match starts at position 0.\<close>

definition re_match :: "rx \<Rightarrow> string \<Rightarrow> bool" where
  "re_match r s \<longleftrightarrow> matches r s \<noteq> []"

text \<open>
  \<^verbatim>\<open>re.search(pre + '([cls]+)', s)\<close> followed by \<^verbatim>\<open>.group(1)\<close>: the leftmost start
  position with a match, the first way of matching \<open>pre\<close> there after which the class
  matches at least once, and the greedy run of class characters as the group.
\<close>

fun re_search_group :: "rx \<Rightarrow> (char \<Rightarrow> bool) \<Rightarrow> string \<Rightarrow> string option" where
  "re_search_group pre cls [] =
     (case find (\<lambda>r. takeWhile cls r \<noteq> []) (matches pre []) of
        Some r \<Rightarrow> Some (takeWhile cls r)
      | None \<Rightarrow> None)"
| "re_search_group pre cls (c # cs) =
     (case find (\<lambda>r. takeWhile cls r \<noteq> []) (matches pre (c # cs)) of
        Some r \<Rightarrow> Some (takeWhile cls r)
      | None \<Rightarrow> re_search_group pre cls cs)"

section \<open>URL validation and video id extraction\<close>

text \<open>The class \<^verbatim>\<open>[a-zA-Z0-9_-]\<close>.\<close>

definition id_char :: "char \<Rightarrow> bool" where
  "id_char c \<longleftrightarrow>
     c \<in> set ''abcdefghijklmnopqrstuvwxyzABCDEFGHIJKLMNOPQRSTUVWXYZ0123456789_-''"

text \<open>\<^verbatim>\<open>(https?://)?\<close> and \<^verbatim>\<open>(www\.)?\<close>, shared by the three patterns.\<close>

definition rx_scheme :: rx where
  "rx_scheme = Opt (Seq (Lit ''http'') (Seq (Opt (Lit ''s'')) (Lit ''://'')))"

definition rx_www :: rx where
  "rx_www = Opt (Lit ''www.'')"

text \<open>
  \<^verbatim>\<open>(https?://)?(www\.)?(youtube\.com/watch\?v=|youtu\.be/)[a-zA-Z0-9_-]+\<close>
\<close>

definition youtube_regex :: rx where
  "youtube_regex =
     Seq rx_scheme (Seq rx_www
       (Seq (Alt (Lit ''youtube.com/watch?v='') (Lit ''youtu.be/'')) (Plus id_char)))"

definition is_valid_youtube_url :: "string \<Rightarrow> bool" where
  "is_valid_youtube_url url \<longleftrightarrow> re_match youtube_regex url"

text \<open>
  \<^verbatim>\<open>pattern1\<close> and \<^verbatim>\<open>pattern2\<close> of \<^verbatim>\<open>extract_video_id\<close>, each without its final
  group \<^verbatim>\<open>([a-zA-Z0-9_-]+)\<close>.
\<close>

definition pattern1 :: rx where
  "pattern1 = Seq rx_scheme (Seq rx_www (Lit ''youtube.com/watch?v=''))"

definition pattern2 :: rx where
  "pattern2 = Seq rx_scheme (Seq rx_www (Lit ''youtu.be/''))"

definition extract_video_id :: "string \<Rightarrow> string option" where
  "extract_video_id url =
     (case re_search_group pattern1 id_char url of
        Some g \<Rightarrow> Some g
      | None \<Rightarrow>
          (case re_search_group pattern2 id_char url of
             Some g \<Rightarrow> Some g
           | None \<Rightarrow> None))"

text \<open>
  The reading of the specification's ``canonical host patterns'': the whole string is
  an optional scheme, an optional \<^verbatim>\<open>www.\<close>, one of the two hosts and an identifier,
  with nothing after it (a full match of the same expression).
\<close>

definition spec_canonical_url :: "string \<Rightarrow> bool" where
  "spec_canonical_url url \<longleftrightarrow> [] \<in> set (matches youtube_regex url)"

section \<open>The metadata provider\<close>

text \<open>
  What the extraction library reports for one encoded stream: the opaque tag, whether
  the file carries audio, video or both, the bitrate and resolution labels (absent where
  they do not apply), the container subtype and the file name the library gives to a
  download of the stream.
\<close>

datatype stream_kind = AudioOnly | VideoOnly | Progressive

record raw_stream =
  itag :: int
  kind :: stream_kind
  abr :: "string option"
  resolution :: "string option"
  subtype :: string
  default_filename :: string

text \<open>What \<^verbatim>\<open>YouTube(url)\<close> gives access to once the video could be fetched.\<close>

record provider_video =
  yt_title :: string
  yt_thumbnail_url :: string
  yt_length :: int
  yt_author :: string
  yt_streams :: "raw_stream list"

text \<open>
  The exceptions the handlers of \<^verbatim>\<open>server.py\<close> tell apart, each with the text of
  \<^verbatim>\<open>str(e)\<close>; \<open>HTTPError\<close> carries \<^verbatim>\<open>e.code\<close> (as printed) and \<^verbatim>\<open>e.reason\<close>.
  \<open>UnboundLocalError\<close> is what Python raises when a local variable is read before
  any assignment to it; it carries the variable's name.
\<close>

datatype exn =
    VideoUnavailable string
  | RegexMatchError string
  | HTTPError string string
  | UnboundLocalError string
  | OtherException string

text \<open>
  The stream queries of the extraction library, which is not part of the repository.
  \<^verbatim>\<open>filter(only_audio=True)\<close>, \<^verbatim>\<open>filter(progressive=True, file_extension='mp4')\<close>
  and \<^verbatim>\<open>filter(only_video=True, file_extension='mp4')\<close> select by kind and subtype.
\<close>

definition only_audio :: "raw_stream list \<Rightarrow> raw_stream list" where
  "only_audio ss = filter (\<lambda>s. kind s = AudioOnly) ss"

definition progressive_mp4 :: "raw_stream list \<Rightarrow> raw_stream list" where
  "progressive_mp4 ss = filter (\<lambda>s. kind s = Progressive \<and> subtype s = ''mp4'') ss"

definition only_video_mp4 :: "raw_stream list \<Rightarrow> raw_stream list" where
  "only_video_mp4 ss = filter (\<lambda>s. kind s = VideoOnly \<and> subtype s = ''mp4'') ss"

text \<open>
  The quality rank of a label: the number its decimal digits spell, \<open>160\<close> for
  \<^verbatim>\<open>160kbps\<close> and \<open>1080\<close> for \<^verbatim>\<open>1080p\<close>.
\<close>

definition is_digit :: "char \<Rightarrow> bool" where
  "is_digit c \<longleftrightarrow> c \<in> set ''0123456789''"

definition quality_rank :: "string \<Rightarrow> nat" where
  "quality_rank q = foldl (\<lambda>n c. 10 * n + (of_char c - 48)) 0 (filter is_digit q)"

fun rank_of :: "string option \<Rightarrow> nat" where
  "rank_of None = 0"
| "rank_of (Some q) = quality_rank q"

text \<open>
  \<^verbatim>\<open>order_by(attr).desc()\<close> of the library, after the specification's ``sort descending
  by bitrate'' and ``sort descending by resolution'': streams without the attribute
  are dropped, the others are sorted by rank (a stable ascending sort) and the result
  is reversed.
\<close>

definition order_by_desc ::
  "(raw_stream \<Rightarrow> string option) \<Rightarrow> raw_stream list \<Rightarrow> raw_stream list" where
  "order_by_desc attr ss =
     rev (sort_key (\<lambda>s. rank_of (attr s)) (filter (\<lambda>s. attr s \<noteq> None) ss))"

section \<open>The stream catalog builder\<close>

text \<open>
  An entry of \<^verbatim>\<open>audio_options\<close> or \<^verbatim>\<open>video_options\<close>. The key \<^verbatim>\<open>ptype\<close> exists in
  video entries only.
\<close>

record stream_option =
  opt_itag :: int
  opt_format :: string
  quality :: string
  extension :: string
  ptype :: "string option"

record catalog =
  title :: string
  thumbnail :: string
  duration :: int
  author :: string
  audio_options :: "stream_option list"
  video_options :: "stream_option list"

text \<open>
  The three results of \<^verbatim>\<open>get_video_info\<close>: \<^verbatim>\<open>None\<close>, the dictionary
  \<^verbatim>\<open>{"error": msg}\<close> and the catalog.
\<close>

datatype info = NoInfo | ErrorInfo string | Catalog catalog

definition ALLOWED_VIDEO_RESOLUTIONS :: "string set" where
  "ALLOWED_VIDEO_RESOLUTIONS = {''144p'', ''240p'', ''360p'', ''480p'', ''720p'', ''1080p''}"

definition audio_option :: "raw_stream \<Rightarrow> string \<Rightarrow> stream_option" where
  "audio_option s q =
     \<lparr>opt_itag = itag s, opt_format = ''audio'', quality = q, extension = subtype s,
      ptype = None\<rparr>"

definition video_option :: "raw_stream \<Rightarrow> string \<Rightarrow> string \<Rightarrow> stream_option" where
  "video_option s q p =
     \<lparr>opt_itag = itag s, opt_format = ''video'', quality = q, extension = subtype s,
      ptype = Some p\<rparr>"

text \<open>The loop over \<^verbatim>\<open>audio_streams\<close>; \<^verbatim>\<open>if stream.abr\<close> holds for a non-empty label.\<close>

fun audio_loop :: "raw_stream list \<Rightarrow> stream_option list \<Rightarrow> stream_option list" where
  "audio_loop [] acc = acc"
| "audio_loop (s # ss) acc =
     (case abr s of
        None \<Rightarrow> audio_loop ss acc
      | Some q \<Rightarrow>
          if q \<noteq> [] then audio_loop ss (acc @ [audio_option s q]) else audio_loop ss acc)"

text \<open>The loop over \<^verbatim>\<open>video_streams_prog\<close>.\<close>

fun prog_loop :: "raw_stream list \<Rightarrow> stream_option list \<Rightarrow> stream_option list" where
  "prog_loop [] acc = acc"
| "prog_loop (s # ss) acc =
     (case resolution s of
        None \<Rightarrow> prog_loop ss acc
      | Some r \<Rightarrow>
          if r \<in> ALLOWED_VIDEO_RESOLUTIONS
          then prog_loop ss (acc @ [video_option s r ''prog''])
          else prog_loop ss acc)"

text \<open>
  The loop over \<^verbatim>\<open>video_streams_adapt\<close>, which goes on to the next stream when an
  accumulated option has the stream's resolution as its quality.
\<close>

fun adapt_loop :: "raw_stream list \<Rightarrow> stream_option list \<Rightarrow> stream_option list" where
  "adapt_loop [] acc = acc"
| "adapt_loop (s # ss) acc =
     (case resolution s of
        None \<Rightarrow> adapt_loop ss acc
      | Some r \<Rightarrow>
          if r \<in> ALLOWED_VIDEO_RESOLUTIONS
          then if list_ex (\<lambda>opt. quality opt = r) acc
               then adapt_loop ss acc
               else adapt_loop ss (acc @ [video_option s r ''adapt''])
          else adapt_loop ss acc)"

text \<open>
  \<^verbatim>\<open>get_video_info\<close>. The provider is a parameter: what \<^verbatim>\<open>YouTube(url)\<close> and the
  accesses to its attributes come to for this call, an exception or the video.
\<close>

definition get_video_info :: "(string \<Rightarrow> exn + provider_video) \<Rightarrow> string \<Rightarrow> info" where
  "get_video_info provider url =
     (case provider url of
        Inl (VideoUnavailable m) \<Rightarrow> ErrorInfo (''Video tidak tersedia atau dibatasi: '' @ m)
      | Inl (RegexMatchError m) \<Rightarrow> ErrorInfo (''Video tidak tersedia atau dibatasi: '' @ m)
      | Inl (HTTPError code reason) \<Rightarrow> ErrorInfo (''HTTP Error '' @ code @ '': '' @ reason)
      | Inl (UnboundLocalError m) \<Rightarrow> ErrorInfo (''Error tidak terduga: '' @ m)
      | Inl (OtherException m) \<Rightarrow> ErrorInfo (''Error tidak terduga: '' @ m)
      | Inr yt \<Rightarrow>
          (let audio_streams = order_by_desc abr (only_audio (yt_streams yt));
               audio_opts = audio_loop audio_streams [];
               video_streams_prog = order_by_desc resolution (progressive_mp4 (yt_streams yt));
               video_opts_prog = prog_loop video_streams_prog [];
               video_streams_adapt = order_by_desc resolution (only_video_mp4 (yt_streams yt));
               video_opts = adapt_loop video_streams_adapt video_opts_prog
           in if audio_opts = [] \<and> video_opts = [] then NoInfo
              else Catalog
                \<lparr>title = yt_title yt, thumbnail = yt_thumbnail_url yt,
                 duration = yt_length yt, author = yt_author yt,
                 audio_options = take 3 audio_opts,
                 video_options = take 10 video_opts\<rparr>))"

text \<open>
  The specification's ordering of a list of options: non-increasing by quality rank over
  its full length.
\<close>

definition non_increasing :: "stream_option list \<Rightarrow> bool" where
  "non_increasing opts \<longleftrightarrow>
     sorted_wrt (\<lambda>a b. quality_rank (quality a) \<ge> quality_rank (quality b)) opts"

text \<open>
  The scenario of the specification: two audio streams, a progressive stream at 720p
  and adaptive streams at 720p and 1080p.
\<close>

definition scenario_streams :: "raw_stream list" where
  "scenario_streams =
    [\<lparr>itag = 140, kind = AudioOnly, abr = Some ''160kbps'', resolution = None,
      subtype = ''m4a'', default_filename = ''clip.m4a''\<rparr>,
     \<lparr>itag = 139, kind = AudioOnly, abr = Some ''128kbps'', resolution = None,
      subtype = ''m4a'', default_filename = ''clip.m4a''\<rparr>,
     \<lparr>itag = 22, kind = Progressive, abr = Some ''192kbps'', resolution = Some ''720p'',
      subtype = ''mp4'', default_filename = ''clip.mp4''\<rparr>,
     \<lparr>itag = 136, kind = VideoOnly, abr = None, resolution = Some ''720p'',
      subtype = ''mp4'', default_filename = ''clip.mp4''\<rparr>,
     \<lparr>itag = 137, kind = VideoOnly, abr = None, resolution = Some ''1080p'',
      subtype = ''mp4'', default_filename = ''clip.mp4''\<rparr>]"

definition scenario_provider :: "string \<Rightarrow> exn + provider_video" where
  "scenario_provider url =
     Inr \<lparr>yt_title = ''clip'', yt_thumbnail_url = ''thumb'', yt_length = 60,
          yt_author = ''someone'', yt_streams = scenario_streams\<rparr>"

definition scenario_catalog :: catalog where
  "scenario_catalog =
     \<lparr>title = ''clip'', thumbnail = ''thumb'', duration = 60, author = ''someone'',
      audio_options =
        [\<lparr>opt_itag = 140, opt_format = ''audio'', quality = ''160kbps'',
          extension = ''m4a'', ptype = None\<rparr>,
         \<lparr>opt_itag = 139, opt_format = ''audio'', quality = ''128kbps'',
          extension = ''m4a'', ptype = None\<rparr>],
      video_options =
        [\<lparr>opt_itag = 22, opt_format = ''video'', quality = ''720p'',
          extension = ''mp4'', ptype = Some ''prog''\<rparr>,
         \<lparr>opt_itag = 137, opt_format = ''video'', quality = ''1080p'',
          extension = ''mp4'', ptype = Some ''adapt''\<rparr>]\<rparr>"

text \<open>A provider that lists two progressive streams at the same resolution.\<close>

definition twin_provider :: "string \<Rightarrow> exn + provider_video" where
  "twin_provider url =
     Inr \<lparr>yt_title = ''clip'', yt_thumbnail_url = ''thumb'', yt_length = 60,
          yt_author = ''someone'',
          yt_streams =
            [\<lparr>itag = 18, kind = Progressive, abr = Some ''96kbps'',
              resolution = Some ''360p'', subtype = ''mp4'',
              default_filename = ''clip.mp4''\<rparr>,
             \<lparr>itag = 34, kind = Progressive, abr = Some ''128kbps'',
              resolution = Some ''360p'', subtype = ''mp4'',
              default_filename = ''clip.mp4''\<rparr>]\<rparr>"

definition twin_catalog :: catalog where
  "twin_catalog =
     \<lparr>title = ''clip'', thumbnail = ''thumb'', duration = 60, author = ''someone'',
      audio_options = [],
      video_options =
        [\<lparr>opt_itag = 34, opt_format = ''video'', quality = ''360p'',
          extension = ''mp4'', ptype = Some ''prog''\<rparr>,
         \<lparr>opt_itag = 18, opt_format = ''video'', quality = ''360p'',
          extension = ''mp4'', ptype = Some ''prog''\<rparr>]\<rparr>"

section \<open>The retry wrapper\<close>

text \<open>The test \<^verbatim>\<open>info and "error" not in info\<close>.\<close>

fun usable :: "info \<Rightarrow> bool" where
  "usable NoInfo = False"
| "usable (ErrorInfo m) = False"
| "usable (Catalog c) = True"

text \<open>
  What the wrapper does besides returning: the calls of \<^verbatim>\<open>get_video_info\<close> made so
  far and the one-second sleeps taken so far.
\<close>

record retry_state =
  calls :: nat
  sleeps :: nat

text \<open>
  The loop \<^verbatim>\<open>for attempt in range(retries)\<close> with \<open>n\<close> iterations left, followed by
  \<^verbatim>\<open>return info\<close>. The provider's answer may differ from call to call, so it is
  indexed by the number of the call. \<open>prev\<close> is the variable \<^verbatim>\<open>info\<close>, which has
  no value before the first iteration; reading it then raises.
\<close>

fun retry_loop ::
  "(nat \<Rightarrow> string \<Rightarrow> exn + provider_video) \<Rightarrow> string \<Rightarrow> nat \<Rightarrow> info option \<Rightarrow>
   retry_state \<Rightarrow> (exn + info) \<times> retry_state" where
  "retry_loop provider url 0 prev st =
     (case prev of
        None \<Rightarrow> (Inl (UnboundLocalError ''info''), st)
      | Some info \<Rightarrow> (Inr info, st))"
| "retry_loop provider url (Suc n) prev st =
     (let info = get_video_info (provider (calls st)) url;
          st1 = st\<lparr>calls := Suc (calls st)\<rparr>
      in if usable info then (Inr info, st1)
         else retry_loop provider url n (Some info) (st1\<lparr>sleeps := Suc (sleeps st1)\<rparr>))"

definition get_video_info_with_retry ::
  "(nat \<Rightarrow> string \<Rightarrow> exn + provider_video) \<Rightarrow> string \<Rightarrow> int \<Rightarrow>
   (exn + info) \<times> retry_state" where
  "get_video_info_with_retry provider url retries =
     retry_loop provider url (nat retries) None \<lparr>calls = 0, sleeps = 0\<rparr>"

text \<open>A provider that fails on its first two calls, and one that always fails.\<close>

definition flaky_provider :: "nat \<Rightarrow> string \<Rightarrow> exn + provider_video" where
  "flaky_provider k url =
     (if k < 2 then Inl (HTTPError ''503'' ''Service Unavailable'') else scenario_provider url)"

definition dead_provider :: "nat \<Rightarrow> string \<Rightarrow> exn + provider_video" where
  "dead_provider k url = Inl (VideoUnavailable ''abc123 is unavailable'')"

section \<open>The usage store\<close>

text \<open>
  The two tables of the database. \<^verbatim>\<open>user_id\<close> is the primary key of \<^verbatim>\<open>users\<close>; the
  name columns are \<^verbatim>\<open>NULL\<close> for a user without that name.
\<close>

record user_row =
  user_id :: int
  username :: "string option"
  first_name :: "string option"
  last_name :: "string option"
  join_date :: string

record log_row =
  log_id :: int
  log_user_id :: int
  action :: string
  video_url :: string
  log_format :: string
  log_quality :: string
  timestamp :: string
  status :: string
  error_message :: string

record database =
  users :: "user_row list"
  usage_logs :: "log_row list"

text \<open>
  \<^verbatim>\<open>UPDATE usage_logs SET status = ?, error_message = ? WHERE id = ?\<close>
\<close>

definition update_log_status :: "int \<Rightarrow> string \<Rightarrow> string \<Rightarrow> database \<Rightarrow> database" where
  "update_log_status i st msg db =
     db\<lparr>usage_logs :=
          map (\<lambda>r. if log_id r = i then r\<lparr>status := st, error_message := msg\<rparr> else r)
            (usage_logs db)\<rparr>"

record stats =
  total_users :: nat
  total_downloads :: nat
  top_users :: "(string option \<times> nat) list"
  recent_errors :: "(string \<times> string \<times> string \<times> string) list"

text \<open>
  The rows of \<^verbatim>\<open>usage_logs JOIN users ON usage_logs.user_id = users.user_id\<close> that
  pass \<^verbatim>\<open>WHERE action = 'download' AND status = 'completed'\<close>.
\<close>

definition completed_join :: "database \<Rightarrow> (log_row \<times> user_row) list" where
  "completed_join db =
     concat (map (\<lambda>l. map (\<lambda>u. (l, u))
         (filter (\<lambda>u. log_user_id l = user_id u \<and> action l = ''download'' \<and>
                      status l = ''completed'') (users db)))
       (usage_logs db))"

text \<open>
  \<^verbatim>\<open>GROUP BY users.user_id\<close> with \<^verbatim>\<open>SELECT users.username, COUNT(*)\<close>: one row for
  each user id among the joined rows.
\<close>

definition download_groups :: "database \<Rightarrow> (string option \<times> nat) list" where
  "download_groups db =
     map (\<lambda>uid.
           (case find (\<lambda>(l, u). user_id u = uid) (completed_join db) of
              Some (l, u) \<Rightarrow> username u
            | None \<Rightarrow> None,
            length (filter (\<lambda>(l, u). user_id u = uid) (completed_join db))))
       (remdups (map (\<lambda>(l, u). user_id u) (completed_join db)))"

text \<open>
  \<^verbatim>\<open>get_user_stats\<close>. SQL leaves the order of rows with equal sort keys open; here
  \<^verbatim>\<open>ORDER BY ... DESC\<close> is a stable ascending sort, reversed.
\<close>

definition get_user_stats :: "database \<Rightarrow> stats" where
  "get_user_stats db =
     \<lparr>total_users = length (remdups (map user_id (users db))),
      total_downloads = length (filter (\<lambda>r. action r = ''download'') (usage_logs db)),
      top_users = take 5 (rev (sort_key snd (download_groups db))),
      recent_errors =
        take 5 (map (\<lambda>r. (action r, video_url r, error_message r, timestamp r))
          (rev (sort_key timestamp (filter (\<lambda>r. error_message r \<noteq> []) (usage_logs db)))))\<rparr>"

text \<open>
  The figure the specification names \<^verbatim>\<open>totalCompletedDownloads\<close>: the download rows
  whose status is \<^verbatim>\<open>completed\<close>.
\<close>

definition spec_total_completed_downloads :: "database \<Rightarrow> nat" where
  "spec_total_completed_downloads db =
     length (filter (\<lambda>r. action r = ''download'' \<and> status r = ''completed'') (usage_logs db))"

text \<open>The completed downloads of one user.\<close>

definition completed_downloads_of :: "database \<Rightarrow> int \<Rightarrow> nat" where
  "completed_downloads_of db uid =
     length (filter (\<lambda>r. log_user_id r = uid \<and> action r = ''download'' \<and>
         status r = ''completed'') (usage_logs db))"

text \<open>
  A store with one user: a finished download, one that failed and one still running.
\<close>

definition sample_db :: database where
  "sample_db =
     \<lparr>users =
        [\<lparr>user_id = 7, username = Some ''ana'', first_name = Some ''Ana'', last_name = None,
          join_date = ''2025-01-01 10:00:00''\<rparr>],
      usage_logs =
        [\<lparr>log_id = 1, log_user_id = 7, action = ''download'',
          video_url = ''https://youtu.be/abc123'', log_format = ''audio'',
          log_quality = ''128kbps'', timestamp = ''2025-01-01 10:01:00'',
          status = ''completed'', error_message = ''''\<rparr>,
         \<lparr>log_id = 2, log_user_id = 7, action = ''download'',
          video_url = ''https://youtu.be/abc123'', log_format = ''video'',
          log_quality = ''720p'', timestamp = ''2025-01-01 10:02:00'',
          status = ''failed'', error_message = ''Error mengunduh video: timeout''\<rparr>,
         \<lparr>log_id = 3, log_user_id = 7, action = ''download'',
          video_url = ''https://youtu.be/abc123'', log_format = ''video'',
          log_quality = ''360p'', timestamp = ''2025-01-01 10:03:00'',
          status = ''started'', error_message = ''''\<rparr>]\<rparr>"

section \<open>Paths and the file system\<close>

type_synonym path = string

text \<open>\<^verbatim>\<open>os.path.join(a, b)\<close> on POSIX: an absolute second component replaces the first.\<close>

definition path_join :: "path \<Rightarrow> string \<Rightarrow> path" where
  "path_join a b =
     (if b \<noteq> [] \<and> hd b = CHR ''/'' then b
      else if a = [] \<or> last a = CHR ''/'' then a @ b
      else a @ ''/'' @ b)"

text \<open>\<^verbatim>\<open>s.rfind(c)\<close> for a single character: the last index of \<open>c\<close>, or \<open>-1\<close>.\<close>

definition rfind :: "char \<Rightarrow> string \<Rightarrow> int" where
  "rfind c s =
     (if c \<in> set s
      then int (length s) - 1 - int (length (takeWhile (\<lambda>x. x \<noteq> c) (rev s)))
      else - 1)"

text \<open>
  \<^verbatim>\<open>os.path.splitext(p)\<close>: the extension starts at the last dot of the last path
  component, unless that component has only dots before it.
\<close>

definition splitext :: "path \<Rightarrow> string \<times> string" where
  "splitext p =
     (let sepIndex = rfind CHR ''/'' p;
          dotIndex = rfind CHR ''.'' p
      in if dotIndex > sepIndex \<and>
            list_ex (\<lambda>x. x \<noteq> CHR ''.'')
              (take (nat (dotIndex - (sepIndex + 1))) (drop (nat (sepIndex + 1)) p))
         then (take (nat dotIndex) p, drop (nat dotIndex) p)
         else (p, []))"

text \<open>\<^verbatim>\<open>s.lower()\<close> on ASCII letters.\<close>

definition lower_char :: "char \<Rightarrow> char" where
  "lower_char c =
     (case map_of (zip ''ABCDEFGHIJKLMNOPQRSTUVWXYZ'' ''abcdefghijklmnopqrstuvwxyz'') c of
        Some l \<Rightarrow> l
      | None \<Rightarrow> c)"

definition lower :: "string \<Rightarrow> string" where
  "lower s = map lower_char s"

text \<open>\<^verbatim>\<open>str(n)\<close> for an integer.\<close>

fun str_nat :: "nat \<Rightarrow> string" where
  "str_nat n =
     (if n < 10 then [''0123456789'' ! n]
      else str_nat (n div 10) @ [''0123456789'' ! (n mod 10)])"

definition str_int :: "int \<Rightarrow> string" where
  "str_int i = (if i < 0 then ''-'' @ str_nat (nat (- i)) else str_nat (nat i))"

text \<open>
  The part of the machine the download touches: the files and directories on disk, by
  path, and the usage store.
\<close>

record world =
  files :: "path set"
  dirs :: "path set"
  store :: database

text \<open>A path lies in a directory when it continues the directory's path and a slash.\<close>

definition inside :: "path \<Rightarrow> path \<Rightarrow> bool" where
  "inside d p \<longleftrightarrow> strip_prefix (d @ ''/'') p \<noteq> None"

text \<open>The files of the workspace directory \<open>d\<close>.\<close>

definition workspace_files :: "path \<Rightarrow> world \<Rightarrow> path set" where
  "workspace_files d w = {p \<in> files w. inside d p}"

text \<open>
  A step that may raise: the exception or the value, and the world it leaves. \<open>then_do\<close>
  runs the next step on the value, or passes the exception on.
\<close>

definition then_do ::
  "(exn + 'a) \<times> world \<Rightarrow> ('a \<Rightarrow> world \<Rightarrow> (exn + 'b) \<times> world) \<Rightarrow> (exn + 'b) \<times> world" where
  "then_do r f = (case r of (Inl e, w) \<Rightarrow> (Inl e, w) | (Inr x, w) \<Rightarrow> f x w)"

definition mkdtemp :: "path \<Rightarrow> world \<Rightarrow> world" where
  "mkdtemp d w = w\<lparr>dirs := insert d (dirs w)\<rparr>"

definition os_remove :: "path \<Rightarrow> world \<Rightarrow> (exn + unit) \<times> world" where
  "os_remove p w =
     (if p \<in> files w then (Inr (), w\<lparr>files := files w - {p}\<rparr>)
      else (Inl (OtherException (''No such file or directory: '' @ p)), w))"

definition rmtree :: "path \<Rightarrow> world \<Rightarrow> (exn + unit) \<times> world" where
  "rmtree d w =
     (if d \<in> dirs w
      then (Inr (), w\<lparr>files := {p \<in> files w. \<not> inside d p},
                      dirs := {x \<in> dirs w. x \<noteq> d \<and> \<not> inside d x}\<rparr>)
      else (Inl (OtherException (''No such file or directory: '' @ d)), w))"

definition log_status :: "int \<Rightarrow> string \<Rightarrow> string \<Rightarrow> world \<Rightarrow> world" where
  "log_status i st msg w = w\<lparr>store := update_log_status i st msg (store w)\<rparr>"

section \<open>The fetch-and-assemble pipeline\<close>

text \<open>
  What the collaborators of one run of \<^verbatim>\<open>download_youtube\<close> do: whether
  \<^verbatim>\<open>YouTube(url)\<close> raises, whether the first access to the video's data raises or
  what it yields, the directory \<^verbatim>\<open>tempfile.mkdtemp()\<close> creates, whether the download
  of a stream raises, whether \<^verbatim>\<open>ffmpeg\<close> exits with an error, and whether decoding or
  exporting the audio raises. Writing the job's status to the usage store is taken to
  succeed, and nothing else than this run changes the disk while it runs.
\<close>

record env =
  yt_construct :: "exn option"
  yt_video :: "exn + provider_video"
  temp_dir :: path
  download_raises :: "raw_stream \<Rightarrow> exn option"
  ffmpeg_raises :: "exn option"
  from_file_raises :: "exn option"
  export_raises :: "exn option"

text \<open>\<^verbatim>\<open>str(e)\<close>\<close>

fun exn_message :: "exn \<Rightarrow> string" where
  "exn_message (VideoUnavailable m) = m"
| "exn_message (RegexMatchError m) = m"
| "exn_message (HTTPError code reason) = ''HTTP Error '' @ code @ '': '' @ reason"
| "exn_message (UnboundLocalError v) = v"
| "exn_message (OtherException m) = m"

text \<open>
  \<^verbatim>\<open>streams.get_by_itag(itag)\<close> and \<^verbatim>\<open>.first()\<close> of the library: the index by tag
  keeps the last stream listed under a tag; \<^verbatim>\<open>first\<close> is \<^verbatim>\<open>None\<close> on an empty
  result.
\<close>

definition get_by_itag :: "raw_stream list \<Rightarrow> int \<Rightarrow> raw_stream option" where
  "get_by_itag ss i = find (\<lambda>s. itag s = i) (rev ss)"

definition first :: "raw_stream list \<Rightarrow> raw_stream option" where
  "first ss = (case ss of [] \<Rightarrow> None | s # _ \<Rightarrow> Some s)"

text \<open>
  \<^verbatim>\<open>stream.download(output_path=d, filename_prefix=pre)\<close>: the file is written to
  \<^verbatim>\<open>os.path.join(d, pre + default_filename)\<close> and that path is returned.
\<close>

definition download ::
  "env \<Rightarrow> raw_stream \<Rightarrow> path \<Rightarrow> string \<Rightarrow> world \<Rightarrow> (exn + path) \<times> world" where
  "download e s output_path prefix w =
     (case download_raises e s of
        Some x \<Rightarrow> (Inl x, w)
      | None \<Rightarrow>
          (let p = path_join output_path (prefix @ default_filename s)
           in (Inr p, w\<lparr>files := insert p (files w)\<rparr>)))"

text \<open>
  \<^verbatim>\<open>merge_video_audio\<close>: \<^verbatim>\<open>subprocess.run(..., check=True)\<close> raises when \<^verbatim>\<open>ffmpeg\<close>
  exits with an error; otherwise the output file exists afterwards.
\<close>

definition merge_video_audio ::
  "env \<Rightarrow> path \<Rightarrow> path \<Rightarrow> path \<Rightarrow> world \<Rightarrow> (exn + unit) \<times> world" where
  "merge_video_audio e video_file audio_file output_file w =
     (case ffmpeg_raises e of
        Some x \<Rightarrow> (Inl x, w)
      | None \<Rightarrow> (Inr (), w\<lparr>files := insert output_file (files w)\<rparr>))"

text \<open>
  \<^verbatim>\<open>convert_to_mp3\<close>. Every exception of the \<^verbatim>\<open>try\<close> block is caught and the
  original path is returned.
\<close>

definition convert_to_mp3 :: "env \<Rightarrow> path \<Rightarrow> world \<Rightarrow> path \<times> world" where
  "convert_to_mp3 e file_path w =
     (let (base, ext) = splitext file_path
      in if lower ext \<noteq> ''.mp3''
         then (case from_file_raises e of
                 Some x \<Rightarrow> (file_path, w)
               | None \<Rightarrow>
                   (let mp3_path = base @ ''.mp3''
                    in case export_raises e of
                         Some x \<Rightarrow> (file_path, w)
                       | None \<Rightarrow>
                           (case os_remove file_path (w\<lparr>files := insert mp3_path (files w)\<rparr>) of
                              (Inl x, w') \<Rightarrow> (file_path, w')
                            | (Inr u, w') \<Rightarrow> (mp3_path, w'))))
         else (file_path, w))"

text \<open>The branch taken when a stream is missing: log, remove the workspace, return.\<close>

definition give_up ::
  "int \<Rightarrow> string \<Rightarrow> path \<Rightarrow> world \<Rightarrow> (exn + path option \<times> path option) \<times> world" where
  "give_up lid error_msg tmp w =
     then_do (rmtree tmp (log_status lid ''failed'' error_msg w))
       (\<lambda>u w'. (Inr (None, None), w'))"

text \<open>
  The \<^verbatim>\<open>try\<close> block of \<^verbatim>\<open>download_youtube\<close>. The parameters \<^verbatim>\<open>itag\<close>,
  \<^verbatim>\<open>user_id\<close>, \<^verbatim>\<open>log_id\<close> and \<^verbatim>\<open>ptype\<close> are \<open>tag\<close>, \<open>uid\<close>, \<open>lid\<close> and
  \<open>placement\<close> here, the source's names being those of record fields.
\<close>

definition download_body ::
  "env \<Rightarrow> string \<Rightarrow> int \<Rightarrow> string \<Rightarrow> int \<Rightarrow> int \<Rightarrow> string \<Rightarrow> world \<Rightarrow>
   (exn + path option \<times> path option) \<times> world" where
  "download_body e url tag format_type uid lid placement w =
     (let video_id = extract_video_id url
      in case yt_construct e of
           Some x \<Rightarrow> (Inl x, w)
         | None \<Rightarrow>
      (let tmp = temp_dir e; w1 = mkdtemp tmp w
       in case yt_video e of
            Inl x \<Rightarrow> (Inl x, w1)
          | Inr yt \<Rightarrow>
       if format_type = ''video'' \<and> placement = ''adapt''
       then (case get_by_itag (yt_streams yt) tag of
               None \<Rightarrow>
                 give_up lid (''Stream dengan itag '' @ str_int tag @ '' tidak tersedia'') tmp w1
             | Some video_stream \<Rightarrow>
                 then_do (download e video_stream tmp ''video_'' w1) (\<lambda>video_path w2.
                 case first (order_by_desc abr (only_audio (yt_streams yt))) of
                   None \<Rightarrow>
                     give_up lid
                       ''Audio stream tidak tersedia untuk penggabungan adaptive video'' tmp w2
                 | Some audio_stream \<Rightarrow>
                     then_do (download e audio_stream tmp ''audio_'' w2) (\<lambda>audio_path w3.
                     let output_path =
                           path_join tmp
                             (yt_title yt @ ''_'' @
                              (case video_id of None \<Rightarrow> ''None'' | Some v \<Rightarrow> v) @ ''.mp4'')
                     in then_do (merge_video_audio e video_path audio_path output_path w3)
                          (\<lambda>u w4.
                        then_do (os_remove video_path w4) (\<lambda>u w5.
                        then_do (os_remove audio_path w5) (\<lambda>u w6.
                        (Inr (Some output_path, Some tmp),
                         log_status lid ''completed'' [] w6)))))))
       else (case get_by_itag (yt_streams yt) tag of
               None \<Rightarrow>
                 give_up lid (''Stream dengan itag '' @ str_int tag @ '' tidak tersedia'') tmp w1
             | Some stream \<Rightarrow>
                 then_do (download e stream tmp [] w1) (\<lambda>file_path w2.
                 let (file_path', w3) =
                       (if format_type = ''audio'' then convert_to_mp3 e file_path w2
                        else (file_path, w2))
                 in (Inr (Some file_path', Some tmp),
                     log_status lid ''completed'' [] w3)))))"

text \<open>
  \<^verbatim>\<open>download_youtube\<close>: the \<^verbatim>\<open>try\<close> block under its two handlers, which log the
  failure and return \<^verbatim>\<open>(None, None)\<close>.
\<close>

definition download_youtube ::
  "env \<Rightarrow> string \<Rightarrow> int \<Rightarrow> string \<Rightarrow> int \<Rightarrow> int \<Rightarrow> string \<Rightarrow> world \<Rightarrow>
   (path option \<times> path option) \<times> world" where
  "download_youtube e url tag format_type uid lid placement w =
     (case download_body e url tag format_type uid lid placement w of
        (Inr r, w') \<Rightarrow> (r, w')
      | (Inl (VideoUnavailable m), w') \<Rightarrow>
          ((None, None), log_status lid ''failed'' (''Video tidak tersedia: '' @ m) w')
      | (Inl x, w') \<Rightarrow>
          ((None, None),
           log_status lid ''failed'' (''Error mengunduh video: '' @ exn_message x) w'))"

text \<open>
  A run on the scenario's video: every collaborator works, the workspace is
  \<^verbatim>\<open>/tmp/tmpk3v9\<close>, the disk holds no files yet, and the job's log row is row 3.
\<close>

definition sample_audio_stream :: raw_stream where
  "sample_audio_stream =
     \<lparr>itag = 140, kind = AudioOnly, abr = Some ''160kbps'', resolution = None,
      subtype = ''m4a'', default_filename = ''clip.m4a''\<rparr>"

definition sample_video :: provider_video where
  "sample_video =
     \<lparr>yt_title = ''clip'', yt_thumbnail_url = ''thumb'', yt_length = 60,
      yt_author = ''someone'', yt_streams = scenario_streams\<rparr>"

definition sample_env :: env where
  "sample_env =
     \<lparr>yt_construct = None, yt_video = Inr sample_video, temp_dir = ''/tmp/tmpk3v9'',
      download_raises = (\<lambda>s. None), ffmpeg_raises = None, from_file_raises = None,
      export_raises = None\<rparr>"

definition sample_world :: world where
  "sample_world = \<lparr>files = {}, dirs = {''/tmp''}, store = sample_db\<rparr>"

section \<open>Properties of the URL functions\<close>

lemma strip_prefix_iff: "strip_prefix p s = Some r \<longleftrightarrow> s = p @ r"
  by (induction p s rule: strip_prefix.induct) auto

lemma strip_prefix_append: "strip_prefix p (p @ r) = Some r"
  by (simp add: strip_prefix_iff)

lemma set_matches_Lit: "set (matches (Lit p) s) = {r. s = p @ r}"
proof (cases "strip_prefix p s")
  case None
  then have "\<And>r. s \<noteq> p @ r" by (metis strip_prefix_append option.distinct(1))
  with None show ?thesis by simp
next
  case (Some r)
  then have "s = p @ r" by (simp add: strip_prefix_iff)
  with Some show ?thesis by auto
qed

lemma matches_Seq_nonempty:
  "matches (Seq a b) s \<noteq> [] \<longleftrightarrow> (\<exists>r \<in> set (matches a s). matches b r \<noteq> [])"
  by simp

lemma matches_Plus_nonempty: "matches (Plus cls) s \<noteq> [] \<longleftrightarrow> takeWhile cls s \<noteq> []"
  by (cases "takeWhile cls s") simp_all

lemma takeWhile_nonempty_iff:
  "takeWhile cls s \<noteq> [] \<longleftrightarrow> (\<exists>v rest. s = v @ rest \<and> v \<noteq> [] \<and> (\<forall>c \<in> set v. cls c))"
proof
  assume a: "takeWhile cls s \<noteq> []"
  have 1: "s = takeWhile cls s @ dropWhile cls s" by simp
  have 2: "\<forall>c \<in> set (takeWhile cls s). cls c" by (blast dest: set_takeWhileD)
  from 1 a 2 show "\<exists>v rest. s = v @ rest \<and> v \<noteq> [] \<and> (\<forall>c \<in> set v. cls c)"
    by blast
next
  assume "\<exists>v rest. s = v @ rest \<and> v \<noteq> [] \<and> (\<forall>c \<in> set v. cls c)"
  then obtain v rest where s: "s = v @ rest" and v: "v \<noteq> []" "\<forall>c \<in> set v. cls c" by blast
  from v have "cls (hd v)" by simp
  moreover from v have "hd s = hd v" unfolding s by simp
  moreover from v have "s \<noteq> []" unfolding s by simp
  ultimately show "takeWhile cls s \<noteq> []" by (simp add: takeWhile_eq_Nil_iff)
qed

lemma set_matches_Seq:
  "set (matches (Seq a b) s) = (\<Union>r \<in> set (matches a s). set (matches b r))"
  by simp

lemma set_matches_Opt: "set (matches (Opt a) s) = set (matches a s) \<union> {s}"
  by simp

lemma set_matches_Alt: "set (matches (Alt a b) s) = set (matches a s) \<union> set (matches b s)"
  by simp

lemmas set_matches = set_matches_Seq set_matches_Opt set_matches_Alt set_matches_Lit

lemma set_matches_scheme:
  "set (matches rx_scheme s) = {r. s = ''https://'' @ r \<or> s = ''http://'' @ r \<or> s = r}"
  unfolding rx_scheme_def set_matches by auto

lemma set_matches_www:
  "set (matches rx_www s) = {r. s = ''www.'' @ r \<or> s = r}"
  unfolding rx_www_def set_matches by auto

lemma re_search_group_Some:
  "re_search_group pre cls s = Some g \<Longrightarrow> g \<noteq> [] \<and> (\<forall>c \<in> set g. cls c)"
proof (induction s)
  case Nil
  then show ?case
    by (auto simp: find_Some_iff split: option.splits dest: set_takeWhileD)
next
  case (Cons c cs)
  then show ?case
    by (auto simp: find_Some_iff split: option.splits dest: set_takeWhileD)
qed

lemma re_search_group_start:
  assumes "\<exists>r \<in> set (matches pre s). takeWhile cls r \<noteq> []"
  shows "\<exists>g. re_search_group pre cls s = Some g"
proof -
  from assms have "find (\<lambda>r. takeWhile cls r \<noteq> []) (matches pre s) \<noteq> None"
    by (auto simp: find_None_iff)
  then show ?thesis by (cases s) auto
qed

lemma valid_pattern_start:
  assumes "is_valid_youtube_url url"
  shows "(\<exists>r \<in> set (matches pattern1 url). takeWhile id_char r \<noteq> []) \<or>
         (\<exists>r \<in> set (matches pattern2 url). takeWhile id_char r \<noteq> [])"
  using assms
  unfolding is_valid_youtube_url_def re_match_def youtube_regex_def pattern1_def pattern2_def
    matches_Seq_nonempty matches_Plus_nonempty set_matches_Seq set_matches_Alt
  by blast

text \<open>
  Claim C9, as amended: \<open>is_valid_youtube_url\<close> accepts exactly the strings that
  \<^emph>\<open>begin\<close> with an optional scheme, an optional \<^verbatim>\<open>www.\<close>, one of the two hosts
  and a non-empty identifier; whatever follows the identifier is not inspected
  (\<^verbatim>\<open>re.match\<close> anchors the start of the string only).
\<close>

theorem is_valid_youtube_url_prefix_form:
  "is_valid_youtube_url url \<longleftrightarrow>
     (\<exists>scheme www host vid rest.
        url = scheme @ www @ host @ vid @ rest \<and>
        scheme \<in> {[], ''http://'', ''https://''} \<and>
        www \<in> {[], ''www.''} \<and>
        host \<in> {''youtube.com/watch?v='', ''youtu.be/''} \<and>
        vid \<noteq> [] \<and> (\<forall>c \<in> set vid. id_char c))"
  (is "?L \<longleftrightarrow> ?R")
proof -
  have L: "?L \<longleftrightarrow> (\<exists>r1 \<in> set (matches rx_scheme url). \<exists>r2 \<in> set (matches rx_www r1).
           \<exists>r3 \<in> set (matches (Alt (Lit ''youtube.com/watch?v='') (Lit ''youtu.be/'')) r2).
             takeWhile id_char r3 \<noteq> [])"
    unfolding is_valid_youtube_url_def re_match_def youtube_regex_def
      matches_Seq_nonempty matches_Plus_nonempty ..
  show ?thesis
  proof
    assume ?L
    then obtain r1 r2 r3 where
      r1: "r1 \<in> set (matches rx_scheme url)" and
      r2: "r2 \<in> set (matches rx_www r1)" and
      r3: "r3 \<in> set (matches (Alt (Lit ''youtube.com/watch?v='') (Lit ''youtu.be/'')) r2)" and
      t: "takeWhile id_char r3 \<noteq> []"
      unfolding L by blast
    from r1 obtain scheme where 1: "url = scheme @ r1" "scheme \<in> {[], ''http://'', ''https://''}"
      unfolding set_matches_scheme by (fastforce simp del: append.simps)
    from r2 obtain www where 2: "r1 = www @ r2" "www \<in> {[], ''www.''}"
      unfolding set_matches_www by (fastforce simp del: append.simps)
    from r3 obtain host where 3: "r2 = host @ r3" "host \<in> {''youtube.com/watch?v='', ''youtu.be/''}"
      unfolding set_matches by (fastforce simp del: append.simps)
    from t obtain vid rest where 4: "r3 = vid @ rest" "vid \<noteq> []" "\<forall>c \<in> set vid. id_char c"
      unfolding takeWhile_nonempty_iff by blast
    have "url = scheme @ www @ host @ vid @ rest"
      using 1(1) 2(1) 3(1) 4(1) by (simp only:)
    with 1(2) 2(2) 3(2) 4(2,3) show ?R by blast
  next
    assume ?R
    then obtain scheme www host vid rest where
      u: "url = scheme @ www @ host @ vid @ rest" and
      s: "scheme \<in> {[], ''http://'', ''https://''}" and
      w: "www \<in> {[], ''www.''}" and
      h: "host \<in> {''youtube.com/watch?v='', ''youtu.be/''}" and
      v: "vid \<noteq> []" "\<forall>c \<in> set vid. id_char c"
      by blast
    have r1: "www @ host @ vid @ rest \<in> set (matches rx_scheme url)"
      unfolding set_matches_scheme u using s by (auto simp del: append.simps)
    have r2: "host @ vid @ rest \<in> set (matches rx_www (www @ host @ vid @ rest))"
      unfolding set_matches_www using w by (auto simp del: append.simps)
    have r3: "vid @ rest \<in> set (matches (Alt (Lit ''youtube.com/watch?v='') (Lit ''youtu.be/''))
        (host @ vid @ rest))"
      unfolding set_matches using h by (auto simp del: append.simps)
    have t: "takeWhile id_char (vid @ rest) \<noteq> []"
      unfolding takeWhile_nonempty_iff using v by blast
    from r1 r2 r3 t show ?L unfolding L by blast
  qed
qed


theorem is_valid_youtube_url_prefix_form_witness:
  "is_valid_youtube_url ''https://www.youtube.com/watch?v=a_b-9&t=10s'' \<and>
   list_all id_char ''a_b-9''"
proof -
  have ids: "\<forall>c \<in> set ''a_b-9''. id_char c"
    by (simp add: id_char_def)
  have "''https://www.youtube.com/watch?v=a_b-9&t=10s'' =
        ''https://'' @ ''www.'' @ ''youtube.com/watch?v='' @ ''a_b-9'' @ ''&t=10s''"
    by simp
  with ids have "\<exists>scheme www host vid rest.
        ''https://www.youtube.com/watch?v=a_b-9&t=10s'' = scheme @ www @ host @ vid @ rest \<and>
        scheme \<in> {[], ''http://'', ''https://''} \<and>
        www \<in> {[], ''www.''} \<and>
        host \<in> {''youtube.com/watch?v='', ''youtu.be/''} \<and>
        vid \<noteq> [] \<and> (\<forall>c \<in> set vid. id_char c)"
    by (intro exI [of _ "''https://''"] exI [of _ "''www.''"]
        exI [of _ "''youtube.com/watch?v=''"] exI [of _ "''a_b-9''"] exI [of _ "''&t=10s''"])
      simp
  then have "is_valid_youtube_url ''https://www.youtube.com/watch?v=a_b-9&t=10s''"
    using is_valid_youtube_url_prefix_form
      [of "''https://www.youtube.com/watch?v=a_b-9&t=10s''"] by (simp only:)
  with ids show ?thesis by (simp only: simp_thms list_all_iff)
qed

text \<open>
  Claim C9 as stated fails: a string that is not of the canonical form, because text
  follows the identifier, is accepted.
\<close>

theorem is_valid_youtube_url_trailing_text:
  "is_valid_youtube_url ''https://youtu.be/abc123 not a url'' \<and>
   \<not> spec_canonical_url ''https://youtu.be/abc123 not a url''"
  by (simp add: is_valid_youtube_url_def spec_canonical_url_def re_match_def
      youtube_regex_def rx_scheme_def rx_www_def id_char_def)

text \<open>
  Claim C10: every string accepted by \<open>is_valid_youtube_url\<close> yields an identifier
  from \<open>extract_video_id\<close>: the result is never \<open>None\<close>, and the identifier is a
  non-empty run of identifier characters.
\<close>

theorem valid_url_has_video_id:
  "is_valid_youtube_url url \<Longrightarrow>
     \<exists>g. extract_video_id url = Some g \<and> g \<noteq> [] \<and> (\<forall>c \<in> set g. id_char c)"
proof -
  assume v: "is_valid_youtube_url url"
  show ?thesis
  proof (cases "re_search_group pattern1 id_char url")
    case (Some g)
    then have "extract_video_id url = Some g" by (simp add: extract_video_id_def)
    with re_search_group_Some [OF Some] show ?thesis by blast
  next
    case None
    with valid_pattern_start [OF v] re_search_group_start [of pattern1 url id_char]
    have "\<exists>r \<in> set (matches pattern2 url). takeWhile id_char r \<noteq> []" by auto
    then obtain g where g: "re_search_group pattern2 id_char url = Some g"
      using re_search_group_start by blast
    with None have "extract_video_id url = Some g" by (simp add: extract_video_id_def)
    with re_search_group_Some [OF g] show ?thesis by blast
  qed
qed

theorem valid_url_has_video_id_witness:
  "is_valid_youtube_url ''https://youtu.be/abc123'' \<and>
   (\<exists>g. extract_video_id ''https://youtu.be/abc123'' = Some g \<and> g \<noteq> [] \<and>
      (\<forall>c \<in> set g. id_char c))"
proof -
  have v: "is_valid_youtube_url ''https://youtu.be/abc123''"
    by (simp add: is_valid_youtube_url_def re_match_def youtube_regex_def rx_scheme_def
        rx_www_def id_char_def)
  from v valid_url_has_video_id [OF v] show ?thesis by (simp only: simp_thms)
qed

section \<open>Properties of the catalog builder\<close>

lemma audio_loop_eq:
  "audio_loop ss acc =
     acc @ map (\<lambda>s. audio_option s (the (abr s))) (filter (\<lambda>s. abr s \<noteq> None \<and> abr s \<noteq> Some []) ss)"
  by (induction ss arbitrary: acc) (auto split: option.splits)

lemma prog_loop_eq:
  "prog_loop ss acc =
     acc @ map (\<lambda>s. video_option s (the (resolution s)) ''prog'')
       (filter (\<lambda>s. \<exists>r. resolution s = Some r \<and> r \<in> ALLOWED_VIDEO_RESOLUTIONS) ss)"
  by (induction ss arbitrary: acc) (auto split: option.splits)

lemma order_by_desc_sorted:
  "sorted_wrt (\<lambda>a b. rank_of (attr a) \<ge> rank_of (attr b)) (order_by_desc attr ss)"
proof -
  have "sorted (map (\<lambda>s. rank_of (attr s)) (sort_key (\<lambda>s. rank_of (attr s)) (filter (\<lambda>s. attr s \<noteq> None) ss)))"
    by (rule sorted_sort_key)
  then show ?thesis
    unfolding order_by_desc_def sorted_wrt_rev sorted_map by simp
qed

lemma adapt_loop_ext:
  "\<exists>ext. adapt_loop ss acc = acc @ ext \<and>
     list_all (\<lambda>opt. ptype opt = Some ''adapt'' \<and> quality opt \<notin> quality ` set acc \<and>
        (\<exists>s \<in> set ss. resolution s = Some (quality opt))) ext \<and>
     distinct (map quality ext) \<and>
     (sorted_wrt (\<lambda>a b. rank_of (resolution a) \<ge> rank_of (resolution b)) ss \<longrightarrow>
        non_increasing ext)"
proof (induction ss arbitrary: acc)
  case Nil
  show ?case by (simp add: non_increasing_def)
next
  case (Cons s ss)
  show ?case
  proof (cases "\<exists>r. resolution s = Some r \<and> r \<in> ALLOWED_VIDEO_RESOLUTIONS \<and> \<not> list_ex (\<lambda>opt. quality opt = r) acc")
    case False
    then have "adapt_loop (s # ss) acc = adapt_loop ss acc"
      by (auto split: option.splits)
    with Cons.IH [of acc] show ?thesis
      by (auto simp: list_all_iff)
  next
    case True
    then obtain r where r: "resolution s = Some r" "r \<in> ALLOWED_VIDEO_RESOLUTIONS"
      "\<not> list_ex (\<lambda>opt. quality opt = r) acc" by blast
    let ?o = "video_option s r ''adapt''"
    from r have eq: "adapt_loop (s # ss) acc = adapt_loop ss (acc @ [?o])" by simp
    from Cons.IH [of "acc @ [?o]"] obtain ext where
      e: "adapt_loop ss (acc @ [?o]) = (acc @ [?o]) @ ext"
      and a: "list_all (\<lambda>opt. ptype opt = Some ''adapt'' \<and> quality opt \<notin> quality ` set (acc @ [?o]) \<and>
        (\<exists>s \<in> set ss. resolution s = Some (quality opt))) ext"
      and d: "distinct (map quality ext)"
      and so: "sorted_wrt (\<lambda>a b. rank_of (resolution a) \<ge> rank_of (resolution b)) ss \<longrightarrow>
        non_increasing ext"
      by blast
    have q: "quality ?o = r" "ptype ?o = Some ''adapt''" by (simp_all add: video_option_def)
    have 1: "adapt_loop (s # ss) acc = acc @ (?o # ext)" using eq e by simp
    have 2: "list_all (\<lambda>opt. ptype opt = Some ''adapt'' \<and> quality opt \<notin> quality ` set acc \<and>
        (\<exists>s' \<in> set (s # ss). resolution s' = Some (quality opt))) (?o # ext)"
      using a r q by (auto simp: list_all_iff list_ex_iff)
    have 3: "distinct (map quality (?o # ext))"
      using a d q by (auto simp: list_all_iff)
    have 4: "sorted_wrt (\<lambda>a b. rank_of (resolution a) \<ge> rank_of (resolution b)) (s # ss) \<longrightarrow>
        non_increasing (?o # ext)"
    proof
      assume s: "sorted_wrt (\<lambda>a b. rank_of (resolution a) \<ge> rank_of (resolution b)) (s # ss)"
      with so have "non_increasing ext" by simp
      moreover have "\<forall>x \<in> set ext. quality_rank (quality x) \<le> quality_rank (quality ?o)"
      proof
        fix x assume "x \<in> set ext"
        with a obtain s' where "s' \<in> set ss" "resolution s' = Some (quality x)"
          by (auto simp: list_all_iff)
        with s r q show "quality_rank (quality x) \<le> quality_rank (quality ?o)" by fastforce
      qed
      ultimately show "non_increasing (?o # ext)" by (simp add: non_increasing_def)
    qed
    from 1 2 3 4 show ?thesis by blast
  qed
qed


lemmas eval_defs = get_video_info_def order_by_desc_def only_audio_def progressive_mp4_def
  only_video_mp4_def quality_rank_def is_digit_def audio_option_def video_option_def
  ALLOWED_VIDEO_RESOLUTIONS_def

lemma prog_loop_all_prog: "list_all (\<lambda>opt. ptype opt = Some ''prog'') (prog_loop ss [])"
  by (simp add: prog_loop_eq list_all_iff video_option_def)

lemma prog_loop_sorted:
  assumes "sorted_wrt (\<lambda>a b. rank_of (resolution a) \<ge> rank_of (resolution b)) ss"
  shows "non_increasing (prog_loop ss [])"
proof -
  let ?keep = "\<lambda>s. \<exists>r. resolution s = Some r \<and> r \<in> ALLOWED_VIDEO_RESOLUTIONS"
  have "sorted_wrt (\<lambda>a b. rank_of (resolution a) \<ge> rank_of (resolution b)) (filter ?keep ss)"
    using assms by (rule sorted_wrt_filter)
  then have "sorted_wrt (\<lambda>a b. quality_rank (the (resolution a)) \<ge> quality_rank (the (resolution b)))
      (filter ?keep ss)"
    by (rule sorted_wrt_mono_rel [rotated]) auto
  then show ?thesis
    by (simp add: prog_loop_eq non_increasing_def sorted_wrt_map video_option_def)
qed

lemma audio_loop_sorted:
  assumes "sorted_wrt (\<lambda>a b. rank_of (abr a) \<ge> rank_of (abr b)) ss"
  shows "non_increasing (audio_loop ss [])"
proof -
  let ?keep = "\<lambda>s. abr s \<noteq> None \<and> abr s \<noteq> Some []"
  have "sorted_wrt (\<lambda>a b. rank_of (abr a) \<ge> rank_of (abr b)) (filter ?keep ss)"
    using assms by (rule sorted_wrt_filter)
  then have "sorted_wrt (\<lambda>a b. quality_rank (the (abr a)) \<ge> quality_rank (the (abr b)))
      (filter ?keep ss)"
    by (rule sorted_wrt_mono_rel [rotated]) auto
  then show ?thesis
    by (simp add: audio_loop_eq non_increasing_def sorted_wrt_map audio_option_def)
qed

lemma non_increasing_take: "non_increasing xs \<Longrightarrow> non_increasing (take n xs)"
  unfolding non_increasing_def by (rule sorted_wrt_take)

lemma list_all_take: "list_all P xs \<Longrightarrow> list_all P (take n xs)"
  by (auto simp: list_all_iff dest: in_set_takeD)

text \<open>The video list before it is cut to ten entries.\<close>

lemma video_list_structure:
  "\<exists>ps as.
     adapt_loop (order_by_desc resolution (only_video_mp4 ss))
       (prog_loop (order_by_desc resolution (progressive_mp4 ss)) []) = ps @ as \<and>
     list_all (\<lambda>opt. ptype opt = Some ''prog'') ps \<and>
     list_all (\<lambda>opt. ptype opt = Some ''adapt'' \<and> quality opt \<notin> quality ` set ps) as \<and>
     distinct (map quality as) \<and> non_increasing ps \<and> non_increasing as"
proof -
  let ?ps = "prog_loop (order_by_desc resolution (progressive_mp4 ss)) []"
  let ?vs = "order_by_desc resolution (only_video_mp4 ss)"
  from adapt_loop_ext [of ?vs ?ps] obtain ext where
    e: "adapt_loop ?vs ?ps = ?ps @ ext" and
    a: "list_all (\<lambda>opt. ptype opt = Some ''adapt'' \<and> quality opt \<notin> quality ` set ?ps \<and>
        (\<exists>s \<in> set ?vs. resolution s = Some (quality opt))) ext" and
    d: "distinct (map quality ext)" and
    so: "sorted_wrt (\<lambda>a b. rank_of (resolution a) \<ge> rank_of (resolution b)) ?vs \<longrightarrow>
        non_increasing ext"
    by blast
  from so have 1: "non_increasing ext" by (simp add: order_by_desc_sorted)
  have 2: "non_increasing ?ps" by (rule prog_loop_sorted) (rule order_by_desc_sorted)
  from a have 3: "list_all (\<lambda>opt. ptype opt = Some ''adapt'' \<and> quality opt \<notin> quality ` set ?ps) ext"
    by (auto simp: list_all_iff)
  from e prog_loop_all_prog 3 d 2 1 show ?thesis by blast
qed

lemma get_video_info_CatalogD:
  assumes "get_video_info provider url = Catalog c"
  shows "\<exists>yt. provider url = Inr yt \<and>
     audio_options c = take 3 (audio_loop (order_by_desc abr (only_audio (yt_streams yt))) []) \<and>
     video_options c = take 10
       (adapt_loop (order_by_desc resolution (only_video_mp4 (yt_streams yt)))
         (prog_loop (order_by_desc resolution (progressive_mp4 (yt_streams yt))) []))"
  using assms unfolding get_video_info_def Let_def
  by (auto split: sum.splits exn.splits if_splits)

text \<open>
  Claim C2, as amended: two entries of the video list of a catalog that carry the same
  quality label are both progressive. An adaptive stream whose resolution is already
  among the accumulated options is skipped, so no adaptive entry shares its label with
  any other entry; the loop over the progressive streams has no such check.
\<close>

theorem video_options_duplicates_progressive:
  assumes "get_video_info provider url = Catalog c"
    and "i < j" and "j < length (video_options c)"
    and "quality (video_options c ! i) = quality (video_options c ! j)"
  shows "ptype (video_options c ! i) = Some ''prog'' \<and>
         ptype (video_options c ! j) = Some ''prog''"
proof -
  from get_video_info_CatalogD [OF assms(1)] obtain yt :: provider_video where
    v: "video_options c = take 10
       (adapt_loop (order_by_desc resolution (only_video_mp4 (yt_streams yt)))
         (prog_loop (order_by_desc resolution (progressive_mp4 (yt_streams yt))) []))"
    by blast
  from video_list_structure [of "yt_streams yt"] obtain ps as where
    L: "adapt_loop (order_by_desc resolution (only_video_mp4 (yt_streams yt)))
         (prog_loop (order_by_desc resolution (progressive_mp4 (yt_streams yt))) []) = ps @ as"
    and p: "list_all (\<lambda>opt. ptype opt = Some ''prog'') ps"
    and a: "list_all (\<lambda>opt. ptype opt = Some ''adapt'' \<and> quality opt \<notin> quality ` set ps) as"
    and d: "distinct (map quality as)"
    by blast
  from v L have vo: "video_options c = take 10 (ps @ as)" by simp
  have len: "length (video_options c) = min (length (ps @ as)) 10"
    unfolding vo by (simp only: length_take)
  from assms(2,3) len have j: "j < length (ps @ as)" and j10: "j < 10" and i10: "i < 10"
    by simp_all
  have nj: "video_options c ! j = (ps @ as) ! j"
    unfolding vo using j10 by (simp only: nth_take)
  have ni: "video_options c ! i = (ps @ as) ! i"
    unfolding vo using i10 by (simp only: nth_take)
  have "j < length ps"
  proof (rule ccontr)
    assume "\<not> j < length ps"
    then have jge: "length ps \<le> j" by simp
    with j have ja: "j - length ps < length as" by simp
    from jge have ej: "(ps @ as) ! j = as ! (j - length ps)" by (simp add: nth_append)
    from ja a have notin: "quality (as ! (j - length ps)) \<notin> quality ` set ps"
      by (auto simp: list_all_iff)
    show False
    proof (cases "i < length ps")
      case True
      then have "(ps @ as) ! i = ps ! i" by (simp add: nth_append)
      with True have "quality ((ps @ as) ! i) \<in> quality ` set ps" by simp
      with assms(4) ni nj ej notin show False by simp
    next
      case False
      then have ei: "(ps @ as) ! i = as ! (i - length ps)" by (simp add: nth_append)
      from False assms(2) ja have ia: "i - length ps < length as" "i - length ps \<noteq> j - length ps"
        by simp_all
      from assms(4) ni nj ei ej have "map quality as ! (i - length ps) = map quality as ! (j - length ps)"
        using ia ja by simp
      moreover from ia ja have "i - length ps < length (map quality as)"
        "j - length ps < length (map quality as)" by simp_all
      ultimately have "i - length ps = j - length ps"
        using d by (simp only: nth_eq_iff_index_eq)
      with ia show False by simp
    qed
  qed
  with assms(2) have "i < length ps" by simp
  with \<open>j < length ps\<close> p ni nj show ?thesis
    by (simp add: nth_append list_all_iff)
qed

theorem video_options_duplicates_progressive_witness:
  "get_video_info twin_provider ''https://youtu.be/abc123'' = Catalog twin_catalog \<and>
   (0::nat) < 1 \<and> 1 < length (video_options twin_catalog) \<and>
   quality (video_options twin_catalog ! 0) = quality (video_options twin_catalog ! 1) \<and>
   ptype (video_options twin_catalog ! 0) = Some ''prog'' \<and>
   ptype (video_options twin_catalog ! 1) = Some ''prog''"
proof -
  have c: "get_video_info twin_provider ''https://youtu.be/abc123'' = Catalog twin_catalog"
    by (simp add: twin_provider_def twin_catalog_def eval_defs)
  have i: "(0::nat) < 1" by simp
  have j: "1 < length (video_options twin_catalog)" by (simp add: twin_catalog_def)
  have q: "quality (video_options twin_catalog ! 0) = quality (video_options twin_catalog ! 1)"
    by (simp add: twin_catalog_def)
  from c i j q video_options_duplicates_progressive [OF c i j q] show ?thesis
    by (simp only: simp_thms)
qed

text \<open>
  Claim C2 as stated fails: when the provider lists two progressive streams at one
  resolution, both are entries of the video list.
\<close>

theorem video_options_twin_progressive:
  "get_video_info twin_provider ''https://youtu.be/abc123'' = Catalog twin_catalog \<and>
   map quality (video_options twin_catalog) = [''360p'', ''360p''] \<and>
   \<not> distinct (map quality (video_options twin_catalog))"
  by (simp add: twin_provider_def twin_catalog_def eval_defs)

text \<open>
  Claim C3, as amended: a catalog has at most 3 audio options and at most 10 video
  options; the audio options are non-increasing by bitrate; the video options are the
  progressive options, non-increasing by resolution, followed by the adaptive options,
  non-increasing by resolution. The adaptive block starts again from its own highest
  resolution, so the video list as a whole need not be ordered.
\<close>

theorem catalog_bounds_and_order:
  assumes "get_video_info provider url = Catalog c"
  shows "length (audio_options c) \<le> 3 \<and> length (video_options c) \<le> 10 \<and>
     non_increasing (audio_options c) \<and>
     (\<exists>ps as. video_options c = ps @ as \<and>
        list_all (\<lambda>opt. ptype opt = Some ''prog'') ps \<and>
        list_all (\<lambda>opt. ptype opt = Some ''adapt'') as \<and>
        non_increasing ps \<and> non_increasing as)"
proof -
  from get_video_info_CatalogD [OF assms] obtain yt :: provider_video where
    au: "audio_options c = take 3 (audio_loop (order_by_desc abr (only_audio (yt_streams yt))) [])" and
    v: "video_options c = take 10
       (adapt_loop (order_by_desc resolution (only_video_mp4 (yt_streams yt)))
         (prog_loop (order_by_desc resolution (progressive_mp4 (yt_streams yt))) []))"
    by blast
  from video_list_structure [of "yt_streams yt"] obtain ps as where
    L: "adapt_loop (order_by_desc resolution (only_video_mp4 (yt_streams yt)))
         (prog_loop (order_by_desc resolution (progressive_mp4 (yt_streams yt))) []) = ps @ as"
    and p: "list_all (\<lambda>opt. ptype opt = Some ''prog'') ps"
    and a: "list_all (\<lambda>opt. ptype opt = Some ''adapt'' \<and> quality opt \<notin> quality ` set ps) as"
    and sp: "non_increasing ps" and sa: "non_increasing as"
    by blast
  from au have 1: "length (audio_options c) \<le> 3" by simp
  from v have 2: "length (video_options c) \<le> 10" by simp
  have 3: "non_increasing (audio_options c)"
    unfolding au by (intro non_increasing_take audio_loop_sorted order_by_desc_sorted)
  from v L have vo: "video_options c = take 10 ps @ take (10 - length ps) as" by simp
  from a have a': "list_all (\<lambda>opt. ptype opt = Some ''adapt'') as" by (auto simp: list_all_iff)
  have 4: "\<exists>ps as. video_options c = ps @ as \<and>
        list_all (\<lambda>opt. ptype opt = Some ''prog'') ps \<and>
        list_all (\<lambda>opt. ptype opt = Some ''adapt'') as \<and>
        non_increasing ps \<and> non_increasing as"
    using vo list_all_take [OF p, of 10] list_all_take [OF a', of "10 - length ps"]
      non_increasing_take [OF sp, of 10] non_increasing_take [OF sa, of "10 - length ps"]
    by blast
  from 1 2 3 4 show ?thesis by blast
qed

theorem catalog_bounds_and_order_witness:
  "get_video_info scenario_provider ''https://youtu.be/abc123'' = Catalog scenario_catalog \<and>
   length (audio_options scenario_catalog) \<le> 3 \<and>
   length (video_options scenario_catalog) \<le> 10 \<and>
   non_increasing (audio_options scenario_catalog) \<and>
   (\<exists>ps as. video_options scenario_catalog = ps @ as \<and>
      list_all (\<lambda>opt. ptype opt = Some ''prog'') ps \<and>
      list_all (\<lambda>opt. ptype opt = Some ''adapt'') as \<and>
      non_increasing ps \<and> non_increasing as)"
proof -
  have c: "get_video_info scenario_provider ''https://youtu.be/abc123'' =
      Catalog scenario_catalog"
    by (simp add: scenario_provider_def scenario_streams_def scenario_catalog_def eval_defs)
  from c catalog_bounds_and_order [OF c] show ?thesis by (simp only: simp_thms)
qed

text \<open>
  Claim C3 as stated fails on the scenario of the specification: the video list is
  720p (progressive) followed by 1080p (adaptive).
\<close>

theorem scenario_video_list_increases:
  "get_video_info scenario_provider ''https://youtu.be/abc123'' = Catalog scenario_catalog \<and>
   map quality (video_options scenario_catalog) = [''720p'', ''1080p''] \<and>
   \<not> non_increasing (video_options scenario_catalog)"
  by (simp add: scenario_provider_def scenario_streams_def scenario_catalog_def eval_defs
      non_increasing_def)

section \<open>Properties of the retry wrapper\<close>

lemma retry_loop_all_fail:
  assumes "\<forall>k < n. \<not> usable (get_video_info (provider (calls st + k)) url)"
  shows "retry_loop provider url n prev st =
     (if n = 0
      then (case prev of None \<Rightarrow> Inl (UnboundLocalError ''info'') | Some i \<Rightarrow> Inr i)
      else Inr (get_video_info (provider (calls st + n - 1)) url),
      st\<lparr>calls := calls st + n, sleeps := sleeps st + n\<rparr>)"
  using assms
proof (induction n arbitrary: prev st)
  case 0
  show ?case by (simp split: option.splits)
next
  case (Suc n)
  let ?st = "st\<lparr>calls := Suc (calls st), sleeps := Suc (sleeps st)\<rparr>"
  from Suc.prems have f0: "\<not> usable (get_video_info (provider (calls st)) url)"
    by (metis add.right_neutral zero_less_Suc)
  from Suc.prems have "\<forall>k < n. \<not> usable (get_video_info (provider (calls ?st + k)) url)"
    by auto
  from Suc.IH [OF this, of "Some (get_video_info (provider (calls st)) url)"] f0
  show ?case by (cases n) (simp_all add: Let_def)
qed

lemma retry_loop_first_success:
  assumes "\<forall>k < m. \<not> usable (get_video_info (provider (calls st + k)) url)"
    and "usable (get_video_info (provider (calls st + m)) url)" and "m < n"
  shows "retry_loop provider url n prev st =
     (Inr (get_video_info (provider (calls st + m)) url),
      st\<lparr>calls := calls st + m + 1, sleeps := sleeps st + m\<rparr>)"
  using assms
proof (induction m arbitrary: n prev st)
  case 0
  then obtain n' where "n = Suc n'" by (cases n) auto
  with 0 show ?case by (simp add: Let_def)
next
  case (Suc m)
  then obtain n' where n: "n = Suc n'" "m < n'" by (cases n) auto
  let ?st = "st\<lparr>calls := Suc (calls st), sleeps := Suc (sleeps st)\<rparr>"
  from Suc.prems have f0: "\<not> usable (get_video_info (provider (calls st)) url)"
    by (metis add.right_neutral zero_less_Suc)
  from Suc.prems have a: "\<forall>k < m. \<not> usable (get_video_info (provider (calls ?st + k)) url)"
    by auto
  from Suc.prems have b: "usable (get_video_info (provider (calls ?st + m)) url)" by simp
  from Suc.IH [OF a b n(2), of "Some (get_video_info (provider (calls st)) url)"] f0 n
  show ?case by (simp add: Let_def)
qed

text \<open>
  Claim C4: with three attempts, a builder that fails twice and then succeeds is called
  exactly three times and its third result is returned; a builder that fails on every
  call is called exactly as often as there are attempts, and what is returned is the
  result of its last call itself.
\<close>

theorem retry_three_attempts:
  "(\<not> usable (get_video_info (provider 0) url) \<and>
    \<not> usable (get_video_info (provider 1) url) \<and>
    usable (get_video_info (provider 2) url) \<longrightarrow>
      get_video_info_with_retry provider url 3 =
        (Inr (get_video_info (provider 2) url), \<lparr>calls = 3, sleeps = 2\<rparr>)) \<and>
   (0 < retries \<and> (\<forall>k < nat retries. \<not> usable (get_video_info (provider' k) url')) \<longrightarrow>
      get_video_info_with_retry provider' url' retries =
        (Inr (get_video_info (provider' (nat retries - 1)) url'),
         \<lparr>calls = nat retries, sleeps = nat retries\<rparr>))"
proof (intro conjI impI)
  assume a: "\<not> usable (get_video_info (provider 0) url) \<and>
    \<not> usable (get_video_info (provider 1) url) \<and>
    usable (get_video_info (provider 2) url)"
  have "\<forall>k < (2::nat). \<not> usable (get_video_info (provider (calls \<lparr>calls = 0, sleeps = 0\<rparr> + k)) url)"
  proof (intro allI impI)
    fix k :: nat
    assume "k < 2"
    then have "k = 0 \<or> k = 1" by arith
    with a show "\<not> usable (get_video_info (provider (calls \<lparr>calls = 0, sleeps = 0\<rparr> + k)) url)"
      by auto
  qed
  moreover have "usable (get_video_info (provider (calls \<lparr>calls = 0, sleeps = 0\<rparr> + 2)) url)"
    using a by (simp del: add_2_eq_Suc add_2_eq_Suc')
  ultimately have "retry_loop provider url 3 None \<lparr>calls = 0, sleeps = 0\<rparr> =
     (Inr (get_video_info (provider (calls \<lparr>calls = 0, sleeps = 0\<rparr> + 2)) url),
      \<lparr>calls = 0, sleeps = 0\<rparr>\<lparr>calls := calls \<lparr>calls = 0, sleeps = 0\<rparr> + 2 + 1,
        sleeps := sleeps \<lparr>calls = 0, sleeps = 0\<rparr> + 2\<rparr>)"
    by (intro retry_loop_first_success) simp_all
  then show "get_video_info_with_retry provider url 3 =
        (Inr (get_video_info (provider 2) url), \<lparr>calls = 3, sleeps = 2\<rparr>)"
    by (simp add: get_video_info_with_retry_def numeral_2_eq_2 numeral_3_eq_3)
next
  assume b: "0 < retries \<and> (\<forall>k < nat retries. \<not> usable (get_video_info (provider' k) url'))"
  then have "\<forall>k < nat retries.
      \<not> usable (get_video_info (provider' (calls \<lparr>calls = 0, sleeps = 0\<rparr> + k)) url')"
    by simp
  from retry_loop_all_fail [OF this, of None] b
  show "get_video_info_with_retry provider' url' retries =
        (Inr (get_video_info (provider' (nat retries - 1)) url'),
         \<lparr>calls = nat retries, sleeps = nat retries\<rparr>)"
    by (simp add: get_video_info_with_retry_def)
qed

lemma flaky_provider_info:
  "get_video_info (flaky_provider k) url =
     (if k < 2 then ErrorInfo ''HTTP Error 503: Service Unavailable''
      else get_video_info scenario_provider url)"
  by (simp add: flaky_provider_def get_video_info_def)

lemma dead_provider_info:
  "get_video_info (dead_provider k) url =
     ErrorInfo ''Video tidak tersedia atau dibatasi: abc123 is unavailable''"
  by (simp add: dead_provider_def get_video_info_def)

lemma scenario_catalog_eq:
  "get_video_info scenario_provider ''https://youtu.be/abc123'' = Catalog scenario_catalog"
  by (simp add: scenario_provider_def scenario_streams_def scenario_catalog_def eval_defs)

theorem retry_three_attempts_witness:
  "get_video_info_with_retry flaky_provider ''https://youtu.be/abc123'' 3 =
     (Inr (Catalog scenario_catalog), \<lparr>calls = 3, sleeps = 2\<rparr>) \<and>
   get_video_info_with_retry dead_provider ''https://youtu.be/abc123'' 3 =
     (Inr (ErrorInfo ''Video tidak tersedia atau dibatasi: abc123 is unavailable''),
      \<lparr>calls = 3, sleeps = 3\<rparr>)"
  using retry_three_attempts [of flaky_provider "''https://youtu.be/abc123''" 3 dead_provider
      "''https://youtu.be/abc123''"]
  by (simp add: flaky_provider_info dead_provider_info scenario_catalog_eq)

text \<open>
  Claim C5 asks for a defined result for every retry count. With a count of 0 the loop
  body never runs, and \<^verbatim>\<open>return info\<close> reads a variable that was never assigned.
\<close>

theorem retry_zero_unbound:
  "get_video_info_with_retry provider url 0 =
     (Inl (UnboundLocalError ''info''), \<lparr>calls = 0, sleeps = 0\<rparr>)"
  by (simp add: get_video_info_with_retry_def)

section \<open>Properties of the usage store\<close>

lemma completed_join_set:
  "set (completed_join db) = {(l, u). l \<in> set (usage_logs db) \<and> u \<in> set (users db) \<and>
     log_user_id l = user_id u \<and> action l = ''download'' \<and> status l = ''completed''}"
  by (auto simp: completed_join_def)

lemma find_Some_in: "find P xs = Some x \<Longrightarrow> x \<in> set xs \<and> P x"
  by (induction xs) (auto split: if_splits)

lemma filter_unique_user:
  assumes "distinct (map user_id us)" and "u \<in> set us"
  shows "filter (\<lambda>u'. user_id u' = user_id u) us = [u]"
  using assms
proof (induction us)
  case Nil
  then show ?case by simp
next
  case (Cons a us)
  show ?case
  proof (cases "a = u")
    case True
    with Cons.prems have "user_id u \<notin> user_id ` set us" by simp
    then have "\<forall>x \<in> set us. user_id x \<noteq> user_id u" by (metis image_eqI)
    then have "filter (\<lambda>u'. user_id u' = user_id u) us = []" by (simp add: filter_empty_conv)
    with True show ?thesis by simp
  next
    case False
    with Cons.prems have u: "u \<in> set us" and d: "distinct (map user_id us)" by auto
    from Cons.prems u have "user_id a \<noteq> user_id u" by force
    with Cons.IH [OF d u] show ?thesis by simp
  qed
qed

lemma unique_user:
  assumes "distinct (map user_id us)" and "u \<in> set us" and "u' \<in> set us"
    and "user_id u' = user_id u"
  shows "u' = u"
proof -
  from assms(3,4) have "u' \<in> set (filter (\<lambda>x. user_id x = user_id u) us)" by simp
  with filter_unique_user [OF assms(1,2)] show ?thesis by simp
qed

lemma count_joined:
  assumes d: "distinct (map user_id us)" and u: "u \<in> set us"
  shows "length (filter (\<lambda>(l, u'). user_id u' = user_id u)
           (concat (map (\<lambda>l. map (\<lambda>u'. (l, u')) (filter (\<lambda>u'. log_user_id l = user_id u' \<and> A l) us)) ls))) =
         length (filter (\<lambda>l. log_user_id l = user_id u \<and> A l) ls)"
proof (induction ls)
  case Nil
  show ?case by simp
next
  case (Cons l ls)
  have "length (filter (\<lambda>(l', u'). user_id u' = user_id u)
          (map (\<lambda>u'. (l, u')) (filter (\<lambda>u'. log_user_id l = user_id u' \<and> A l) us))) =
        (if log_user_id l = user_id u \<and> A l then 1 else 0)"
  proof (cases "log_user_id l = user_id u \<and> A l")
    case True
    have "filter (\<lambda>(l', u'). user_id u' = user_id u)
          (map (\<lambda>u'. (l, u')) (filter (\<lambda>u'. log_user_id l = user_id u' \<and> A l) us)) =
        map (\<lambda>u'. (l, u')) (filter (\<lambda>u'. user_id u' = user_id u) us)"
    proof -
      have "filter (\<lambda>x. user_id u = user_id x \<and> user_id x = user_id u) us =
            filter (\<lambda>u'. user_id u' = user_id u) us"
        by (rule filter_cong) auto
      with True show ?thesis by (simp add: filter_map o_def)
    qed
    with True filter_unique_user [OF d u] show ?thesis by simp
  next
    case False
    then have "filter (\<lambda>(l', u'). user_id u' = user_id u)
          (map (\<lambda>u'. (l, u')) (filter (\<lambda>u'. log_user_id l = user_id u' \<and> A l) us)) = []"
      by (auto simp: filter_empty_conv)
    with False show ?thesis by simp
  qed
  with Cons.IH show ?case by simp
qed

lemma group_count:
  assumes d: "distinct (map user_id (users db))" and u: "u \<in> set (users db)"
  shows "length (filter (\<lambda>(l, u'). user_id u' = user_id u) (completed_join db)) =
         completed_downloads_of db (user_id u)"
  using count_joined [OF d u, of "\<lambda>l. action l = ''download'' \<and> status l = ''completed''" "usage_logs db"]
  by (simp add: completed_join_def completed_downloads_of_def conj_assoc)

lemma download_groups_entry:
  assumes d: "distinct (map user_id (users db))" and e: "e \<in> set (download_groups db)"
  shows "\<exists>u \<in> set (users db). e = (username u, completed_downloads_of db (user_id u)) \<and>
           0 < completed_downloads_of db (user_id u)"
proof -
  from e obtain uid where uid: "uid \<in> set (map (\<lambda>(l, u). user_id u) (completed_join db))"
    and ee: "e = (case find (\<lambda>(l, u). user_id u = uid) (completed_join db) of
              Some (l, u) \<Rightarrow> username u | None \<Rightarrow> None,
            length (filter (\<lambda>(l, u). user_id u = uid) (completed_join db)))"
    unfolding download_groups_def by auto
  from uid obtain l u where lu: "(l, u) \<in> set (completed_join db)" "user_id u = uid" by auto
  then have uin: "u \<in> set (users db)" by (simp add: completed_join_set)
  from lu have "find (\<lambda>(l, u). user_id u = uid) (completed_join db) \<noteq> None"
    by (auto simp: find_None_iff)
  then obtain l' u' where f: "find (\<lambda>(l, u). user_id u = uid) (completed_join db) = Some (l', u')"
    by auto
  then have "(l', u') \<in> set (completed_join db)" "user_id u' = uid"
    by (auto dest: find_Some_in)
  then have "u' \<in> set (users db)" "user_id u' = user_id u"
    using lu by (simp_all add: completed_join_set)
  with unique_user [OF d uin] have "u' = u" by blast
  with f ee lu(2) have e1: "e = (username u, length (filter (\<lambda>(l, u'). user_id u' = user_id u) (completed_join db)))"
    by simp
  from lu have "(l, u) \<in> set (filter (\<lambda>(l, u'). user_id u' = user_id u) (completed_join db))" by simp
  then have "0 < length (filter (\<lambda>(l, u'). user_id u' = user_id u) (completed_join db))"
    by (metis length_pos_if_in_set)
  with e1 group_count [OF d uin] uin show ?thesis by auto
qed

lemma download_groups_complete:
  assumes d: "distinct (map user_id (users db))" and u: "u \<in> set (users db)"
    and c: "0 < completed_downloads_of db (user_id u)"
  shows "(username u, completed_downloads_of db (user_id u)) \<in> set (download_groups db)"
proof -
  let ?uid = "user_id u"
  from c group_count [OF d u]
  have "filter (\<lambda>(l, u'). user_id u' = ?uid) (completed_join db) \<noteq> []" by auto
  then obtain l u' where lu: "(l, u') \<in> set (completed_join db)" "user_id u' = ?uid"
    by (auto simp: filter_empty_conv)
  then have uid: "?uid \<in> set (remdups (map (\<lambda>(l, u). user_id u) (completed_join db)))"
    by force
  from lu have "find (\<lambda>(l, u). user_id u = ?uid) (completed_join db) \<noteq> None"
    by (auto simp: find_None_iff)
  then obtain l2 u2 where f: "find (\<lambda>(l, u). user_id u = ?uid) (completed_join db) = Some (l2, u2)"
    by auto
  then have "(l2, u2) \<in> set (completed_join db)" "user_id u2 = ?uid"
    by (auto dest: find_Some_in)
  then have "u2 \<in> set (users db)" "user_id u2 = user_id u"
    by (simp_all add: completed_join_set)
  with unique_user [OF d u] have "u2 = u" by blast
  define g where "g = (\<lambda>uid.
           (case find (\<lambda>(l, u). user_id u = uid) (completed_join db) of
              Some (l, u) \<Rightarrow> username u
            | None \<Rightarrow> None,
            length (filter (\<lambda>(l, u). user_id u = uid) (completed_join db))))"
  from \<open>u2 = u\<close> f group_count [OF d u]
  have "g ?uid = (username u, completed_downloads_of db ?uid)"
    by (simp add: g_def)
  moreover have "download_groups db =
      map g (remdups (map (\<lambda>(l, u). user_id u) (completed_join db)))"
    by (simp add: download_groups_def g_def)
  ultimately show ?thesis using uid by (simp add: image_iff) (metis)
qed


lemma ranked_sorted: "sorted_wrt (\<lambda>a b. snd b \<le> snd a) (rev (sort_key snd xs))"
proof -
  have "sorted (map snd (sort_key snd xs))" by (rule sorted_sort_key)
  then show ?thesis unfolding sorted_wrt_rev sorted_map by simp
qed

lemma take_or_below:
  assumes s: "sorted_wrt (\<lambda>a b. snd b \<le> snd a) xs" and x: "x \<in> set xs"
  shows "x \<in> set (take n xs) \<or> (length (take n xs) = n \<and> list_all (\<lambda>e. snd x \<le> snd e) (take n xs))"
proof (cases "x \<in> set (take n xs)")
  case True
  then show ?thesis by simp
next
  case False
  have "set xs = set (take n xs) \<union> set (drop n xs)"
    by (metis append_take_drop_id set_append)
  with x False have xd: "x \<in> set (drop n xs)" by blast
  then have "drop n xs \<noteq> []" by auto
  then have len: "length (take n xs) = n" by simp
  from s have "sorted_wrt (\<lambda>a b. snd b \<le> snd a) (take n xs @ drop n xs)" by simp
  then have "\<forall>a \<in> set (take n xs). \<forall>b \<in> set (drop n xs). snd b \<le> snd a"
    unfolding sorted_wrt_append by blast
  with xd have "list_all (\<lambda>e. snd x \<le> snd e) (take n xs)" by (simp add: list_all_iff)
  with len show ?thesis by blast
qed

text \<open>
  Claim C8, as amended: \<open>total_downloads\<close> counts every log row whose action is
  \<^verbatim>\<open>download\<close>, whatever its status. The list of top users has at most 5 entries,
  is ordered by falling count, every entry is a user's name with that user's number of
  completed downloads (at least one), and a user with completed downloads who is not
  listed has no more of them than any of the 5 listed. The user ids are unique, as the
  primary key of the table makes them.
\<close>

theorem stats_downloads_and_top_users:
  assumes "distinct (map user_id (users db))"
  shows "total_downloads (get_user_stats db) =
           length (filter (\<lambda>r. action r = ''download'') (usage_logs db)) \<and>
         length (top_users (get_user_stats db)) \<le> 5 \<and>
         sorted_wrt (\<lambda>a b. snd b \<le> snd a) (top_users (get_user_stats db)) \<and>
         list_all (\<lambda>e. \<exists>u \<in> set (users db).
             e = (username u, completed_downloads_of db (user_id u)) \<and>
             0 < completed_downloads_of db (user_id u))
           (top_users (get_user_stats db)) \<and>
         (\<forall>u \<in> set (users db). 0 < completed_downloads_of db (user_id u) \<longrightarrow>
            (username u, completed_downloads_of db (user_id u)) \<in>
               set (top_users (get_user_stats db)) \<or>
            (length (top_users (get_user_stats db)) = 5 \<and>
             list_all (\<lambda>e. completed_downloads_of db (user_id u) \<le> snd e)
               (top_users (get_user_stats db))))"
proof -
  let ?S = "rev (sort_key snd (download_groups db))"
  have top: "top_users (get_user_stats db) = take 5 ?S" by (simp add: get_user_stats_def)
  have setS: "set ?S = set (download_groups db)" by simp
  have 1: "total_downloads (get_user_stats db) =
           length (filter (\<lambda>r. action r = ''download'') (usage_logs db))"
    by (simp add: get_user_stats_def)
  have 2: "length (top_users (get_user_stats db)) \<le> 5" unfolding top by simp
  have 3: "sorted_wrt (\<lambda>a b. snd b \<le> snd a) (top_users (get_user_stats db))"
    unfolding top by (rule sorted_wrt_take) (rule ranked_sorted)
  have 4: "list_all (\<lambda>e. \<exists>u \<in> set (users db).
             e = (username u, completed_downloads_of db (user_id u)) \<and>
             0 < completed_downloads_of db (user_id u))
           (top_users (get_user_stats db))"
    unfolding top list_all_iff
  proof
    fix e assume "e \<in> set (take 5 ?S)"
    then have "e \<in> set (download_groups db)" using setS by (blast dest: in_set_takeD)
    from download_groups_entry [OF assms this]
    show "\<exists>u \<in> set (users db).
             e = (username u, completed_downloads_of db (user_id u)) \<and>
             0 < completed_downloads_of db (user_id u)" .
  qed
  have 5: "\<forall>u \<in> set (users db). 0 < completed_downloads_of db (user_id u) \<longrightarrow>
            (username u, completed_downloads_of db (user_id u)) \<in>
               set (top_users (get_user_stats db)) \<or>
            (length (top_users (get_user_stats db)) = 5 \<and>
             list_all (\<lambda>e. completed_downloads_of db (user_id u) \<le> snd e)
               (top_users (get_user_stats db)))"
  proof (intro ballI impI)
    fix u assume u: "u \<in> set (users db)" and c: "0 < completed_downloads_of db (user_id u)"
    from download_groups_complete [OF assms u c] setS
    have "(username u, completed_downloads_of db (user_id u)) \<in> set ?S" by simp
    from take_or_below [OF ranked_sorted this, of 5]
    show "(username u, completed_downloads_of db (user_id u)) \<in>
               set (top_users (get_user_stats db)) \<or>
            (length (top_users (get_user_stats db)) = 5 \<and>
             list_all (\<lambda>e. completed_downloads_of db (user_id u) \<le> snd e)
               (top_users (get_user_stats db)))"
      unfolding top by simp
  qed
  from 1 2 3 4 5 show ?thesis by blast
qed

lemma sample_stats:
  "get_user_stats sample_db =
     \<lparr>total_users = 1, total_downloads = 3, top_users = [(Some ''ana'', 1)],
      recent_errors = [(''download'', ''https://youtu.be/abc123'',
        ''Error mengunduh video: timeout'', ''2025-01-01 10:02:00'')]\<rparr>"
  by (simp add: get_user_stats_def sample_db_def download_groups_def completed_join_def)

theorem stats_downloads_and_top_users_witness:
  "distinct (map user_id (users sample_db)) \<and>
   total_downloads (get_user_stats sample_db) = 3 \<and>
   top_users (get_user_stats sample_db) = [(Some ''ana'', 1)] \<and>
   completed_downloads_of sample_db 7 = 1"
proof -
  have d: "distinct (map user_id (users sample_db))" by (simp add: sample_db_def)
  have c: "completed_downloads_of sample_db 7 = 1"
    by (simp add: completed_downloads_of_def sample_db_def)
  from d c stats_downloads_and_top_users [OF d] show ?thesis
    by (simp add: sample_stats)
qed

text \<open>
  Claim C8 as stated fails: with one completed, one failed and one started download in
  the log, the total is 3, not the 1 completed download.
\<close>

theorem stats_total_counts_unfinished_downloads:
  "total_downloads (get_user_stats sample_db) = 3 \<and>
   spec_total_completed_downloads sample_db = 1"
  by (simp add: sample_stats) (simp add: spec_total_completed_downloads_def sample_db_def)

section \<open>Properties of the fetch-and-assemble pipeline\<close>

lemma splitext_append: "fst (splitext p) @ snd (splitext p) = p"
  by (simp add: splitext_def Let_def)

lemma mp3_path_fresh:
  assumes "lower (snd (splitext p)) \<noteq> ''.mp3''"
  shows "fst (splitext p) @ ''.mp3'' \<noteq> p"
proof
  assume "fst (splitext p) @ ''.mp3'' = p"
  then have "fst (splitext p) @ ''.mp3'' = fst (splitext p) @ snd (splitext p)"
    by (simp only: splitext_append)
  then have "snd (splitext p) = ''.mp3''" by simp
  then have "lower (snd (splitext p)) = ''.mp3''"
    by (simp add: lower_def lower_char_def)
  with assms show False by simp
qed

lemma download_ok:
  "download_raises e s = None \<Longrightarrow>
     download e s d pre w =
       (Inr (path_join d (pre @ default_filename s)),
        w\<lparr>files := insert (path_join d (pre @ default_filename s)) (files w)\<rparr>)"
  by (simp add: download_def Let_def)

lemma convert_to_mp3_thrown:
  assumes "from_file_raises e \<noteq> None \<or> export_raises e \<noteq> None"
  shows "convert_to_mp3 e p w = (p, w)"
  using assms
  by (cases "splitext p") (auto simp: convert_to_mp3_def split: option.splits)

lemma convert_to_mp3_ok:
  assumes "from_file_raises e = None" and "export_raises e = None"
    and "lower (snd (splitext p)) \<noteq> ''.mp3''" and "p \<in> files w"
  shows "convert_to_mp3 e p w =
     (fst (splitext p) @ ''.mp3'',
      w\<lparr>files := insert (fst (splitext p) @ ''.mp3'') (files w) - {p}\<rparr>)"
  using assms
  by (cases "splitext p") (simp add: convert_to_mp3_def os_remove_def Let_def)

lemma download_body_single:
  assumes "yt_construct e = None" and "yt_video e = Inr yt"
    and "\<not> (format_type = ''video'' \<and> placement = ''adapt'')"
    and "get_by_itag (yt_streams yt) tag = Some s"
    and "download_raises e s = None"
  shows "download_body e url tag format_type uid lid placement w =
     (let p = path_join (temp_dir e) (default_filename s);
          w2 = w\<lparr>dirs := insert (temp_dir e) (dirs w), files := insert p (files w)\<rparr>;
          r = (if format_type = ''audio'' then convert_to_mp3 e p w2 else (p, w2))
      in (Inr (Some (fst r), Some (temp_dir e)), log_status lid ''completed'' [] (snd r)))"
proof -
  from assms(3) have n: "(format_type = ''video'' \<and> placement = ''adapt'') = False" by simp
  show ?thesis
    unfolding download_body_def Let_def n
    using assms(1,2,4,5)
    by (simp add: download_ok then_do_def mkdtemp_def split: prod.splits)
qed


text \<open>
  Claim C6: in an audio fulfillment whose fetched file does not have the extension
  \<^verbatim>\<open>.mp3\<close>, when decoding or exporting raises, the pipeline returns the path of the
  fetched file, which is still on disk, and marks the job completed; when transcoding
  succeeds, the fetched file is removed and the path of the \<^verbatim>\<open>.mp3\<close> file, a
  different path, is returned.
\<close>

theorem audio_transcoding_fallback:
  assumes "yt_construct e = None" and "yt_video e = Inr yt"
    and "get_by_itag (yt_streams yt) tag = Some s"
    and "download_raises e s = None"
    and "p = path_join (temp_dir e) (default_filename s)"
    and "lower (snd (splitext p)) \<noteq> ''.mp3''"
  shows "(from_file_raises e \<noteq> None \<or> export_raises e \<noteq> None \<longrightarrow>
            download_youtube e url tag ''audio'' uid lid placement w =
              ((Some p, Some (temp_dir e)),
               log_status lid ''completed'' []
                 (w\<lparr>dirs := insert (temp_dir e) (dirs w), files := insert p (files w)\<rparr>))) \<and>
         (from_file_raises e = None \<and> export_raises e = None \<longrightarrow>
            download_youtube e url tag ''audio'' uid lid placement w =
              ((Some (fst (splitext p) @ ''.mp3''), Some (temp_dir e)),
               log_status lid ''completed'' []
                 (w\<lparr>dirs := insert (temp_dir e) (dirs w),
                    files := insert (fst (splitext p) @ ''.mp3'') (files w - {p})\<rparr>)) \<and>
            fst (splitext p) @ ''.mp3'' \<noteq> p)"
proof -
  let ?w2 = "w\<lparr>dirs := insert (temp_dir e) (dirs w), files := insert p (files w)\<rparr>"
  have n: "\<not> (''audio'' = ''video'' \<and> placement = ''adapt'')" by simp
  have body: "download_body e url tag ''audio'' uid lid placement w =
      (Inr (Some (fst (convert_to_mp3 e p ?w2)), Some (temp_dir e)),
       log_status lid ''completed'' [] (snd (convert_to_mp3 e p ?w2)))"
    using download_body_single [OF assms(1,2) n assms(3,4), of url uid lid w]
    by (simp add: Let_def assms(5))
  have yt: "download_youtube e url tag ''audio'' uid lid placement w =
      ((Some (fst (convert_to_mp3 e p ?w2)), Some (temp_dir e)),
       log_status lid ''completed'' [] (snd (convert_to_mp3 e p ?w2)))"
    by (simp add: download_youtube_def body)
  show ?thesis
  proof (intro conjI impI)
    assume "from_file_raises e \<noteq> None \<or> export_raises e \<noteq> None"
    from convert_to_mp3_thrown [OF this, of p ?w2]
    show "download_youtube e url tag ''audio'' uid lid placement w =
              ((Some p, Some (temp_dir e)), log_status lid ''completed'' [] ?w2)"
      by (simp add: yt)
  next
    assume t: "from_file_raises e = None \<and> export_raises e = None"
    from mp3_path_fresh [OF assms(6)] have ne: "fst (splitext p) @ ''.mp3'' \<noteq> p" .
    then have s: "insert (fst (splitext p) @ ''.mp3'') (insert p (files w)) - {p} =
        insert (fst (splitext p) @ ''.mp3'') (files w - {p})" by auto
    have "p \<in> files ?w2" by simp
    from convert_to_mp3_ok [OF conjunct1 [OF t] conjunct2 [OF t] assms(6) this] s
    show "download_youtube e url tag ''audio'' uid lid placement w =
              ((Some (fst (splitext p) @ ''.mp3''), Some (temp_dir e)),
               log_status lid ''completed'' []
                 (w\<lparr>dirs := insert (temp_dir e) (dirs w),
                    files := insert (fst (splitext p) @ ''.mp3'') (files w - {p})\<rparr>))"
      by (simp add: yt)
    show "fst (splitext p) @ ''.mp3'' \<noteq> p" by (rule ne)
  qed
qed


lemma sample_video_id: "extract_video_id ''https://youtu.be/abc123'' = Some ''abc123''"
  by (simp add: extract_video_id_def pattern1_def pattern2_def rx_scheme_def rx_www_def
      id_char_def)

lemmas sample_defs = sample_env_def sample_video_def sample_world_def scenario_streams_def
  sample_audio_stream_def

lemmas step_defs = download_youtube_def download_body_def then_do_def download_def
  merge_video_audio_def give_up_def os_remove_def rmtree_def mkdtemp_def
  get_by_itag_def first_def path_join_def order_by_desc_def only_audio_def
  quality_rank_def is_digit_def workspace_files_def inside_def

lemma sample_audio_lookup: "get_by_itag (yt_streams sample_video) 140 = Some sample_audio_stream"
  by (simp add: get_by_itag_def sample_defs)

lemma sample_audio_path:
  "''/tmp/tmpk3v9/clip.m4a'' = path_join ''/tmp/tmpk3v9'' (default_filename sample_audio_stream)"
  by (simp add: path_join_def sample_defs)

lemma sample_audio_splitext: "splitext ''/tmp/tmpk3v9/clip.m4a'' = (''/tmp/tmpk3v9/clip'', ''.m4a'')"
  by (simp add: splitext_def rfind_def Let_def)

lemma sample_audio_not_mp3: "lower (snd (splitext ''/tmp/tmpk3v9/clip.m4a'')) \<noteq> ''.mp3''"
  by (simp add: sample_audio_splitext lower_def lower_char_def)

theorem audio_transcoding_fallback_witness:
  "download_youtube (sample_env\<lparr>from_file_raises := Some (OtherException ''decoding failed'')\<rparr>)
     ''https://youtu.be/abc123'' 140 ''audio'' 7 3 ''prog'' sample_world =
   ((Some ''/tmp/tmpk3v9/clip.m4a'', Some ''/tmp/tmpk3v9''),
    log_status 3 ''completed'' []
      (sample_world\<lparr>dirs := {''/tmp/tmpk3v9'', ''/tmp''},
         files := {''/tmp/tmpk3v9/clip.m4a''}\<rparr>)) \<and>
   download_youtube sample_env ''https://youtu.be/abc123'' 140 ''audio'' 7 3 ''prog''
     sample_world =
   ((Some ''/tmp/tmpk3v9/clip.mp3'', Some ''/tmp/tmpk3v9''),
    log_status 3 ''completed'' []
      (sample_world\<lparr>dirs := {''/tmp/tmpk3v9'', ''/tmp''},
         files := {''/tmp/tmpk3v9/clip.mp3''}\<rparr>))"
proof -
  let ?e = "sample_env\<lparr>from_file_raises := Some (OtherException ''decoding failed'')\<rparr>"
  have 1: "yt_construct ?e = None" "yt_video ?e = Inr sample_video"
    "download_raises ?e sample_audio_stream = None"
    "''/tmp/tmpk3v9/clip.m4a'' = path_join (temp_dir ?e) (default_filename sample_audio_stream)"
    "from_file_raises ?e \<noteq> None \<or> export_raises ?e \<noteq> None"
    by (simp_all add: sample_env_def sample_audio_path)
  have 2: "yt_construct sample_env = None" "yt_video sample_env = Inr sample_video"
    "download_raises sample_env sample_audio_stream = None"
    "''/tmp/tmpk3v9/clip.m4a'' =
       path_join (temp_dir sample_env) (default_filename sample_audio_stream)"
    "from_file_raises sample_env = None \<and> export_raises sample_env = None"
    by (simp_all add: sample_env_def sample_audio_path)
  have t: "temp_dir ?e = ''/tmp/tmpk3v9''" "temp_dir sample_env = ''/tmp/tmpk3v9''"
    by (simp_all add: sample_env_def)
  have w: "files sample_world = {}" "dirs sample_world = {''/tmp''}"
    by (simp_all add: sample_world_def)
  from audio_transcoding_fallback [OF 1(1,2) sample_audio_lookup 1(3,4) sample_audio_not_mp3,
      of "''https://youtu.be/abc123''" 7 3 "''prog''" sample_world] 1(5)
    audio_transcoding_fallback [OF 2(1,2) sample_audio_lookup 2(3,4) sample_audio_not_mp3,
      of "''https://youtu.be/abc123''" 7 3 "''prog''" sample_world] 2(5)
  show ?thesis
    by (simp add: t w sample_audio_splitext)
qed

text \<open>
  Claim C1 asks that no failure path leaves the temporary workspace on disk. The two
  exception handlers return without removing it: when \<^verbatim>\<open>ffmpeg\<close> fails in an adaptive
  fulfillment, the function returns \<^verbatim>\<open>(None, None)\<close> while the workspace directory and
  the two downloaded files remain.
\<close>

theorem merge_failure_leaves_workspace:
  "download_youtube
     (sample_env\<lparr>ffmpeg_raises := Some (OtherException ''ffmpeg exited with status 1'')\<rparr>)
     ''https://youtu.be/abc123'' 137 ''video'' 7 3 ''adapt'' sample_world =
   ((None, None),
    log_status 3 ''failed'' ''Error mengunduh video: ffmpeg exited with status 1''
      (sample_world\<lparr>dirs := {''/tmp/tmpk3v9'', ''/tmp''},
         files := {''/tmp/tmpk3v9/audio_clip.m4a'', ''/tmp/tmpk3v9/video_clip.mp4''}\<rparr>))"
  by (simp add: step_defs sample_defs sample_video_id Let_def)

text \<open>
  The branches for a missing stream do remove the workspace: with a fresh workspace
  directory, the disk is afterwards as it was before the call.
\<close>

lemma missing_stream_removes_workspace:
  assumes "yt_construct e = None" and "yt_video e = Inr yt"
    and "get_by_itag (yt_streams yt) tag = None"
    and "temp_dir e \<notin> dirs w" and "\<forall>x \<in> dirs w. \<not> inside (temp_dir e) x"
    and "workspace_files (temp_dir e) w = {}"
  shows "download_youtube e url tag format_type uid lid placement w =
     ((None, None),
      log_status lid ''failed'' (''Stream dengan itag '' @ str_int tag @ '' tidak tersedia'') w)"
proof -
  let ?m = "''Stream dengan itag '' @ str_int tag @ '' tidak tersedia''"
  from assms(6) have f: "{p \<in> files w. \<not> inside (temp_dir e) p} = files w"
    by (auto simp: workspace_files_def)
  from assms(4,5) have d: "{x. (x = temp_dir e \<or> x \<in> dirs w) \<and> x \<noteq> temp_dir e \<and>
      \<not> inside (temp_dir e) x} = dirs w"
    by auto
  have g: "give_up lid ?m (temp_dir e) (mkdtemp (temp_dir e) w) =
      (Inr (None, None), log_status lid ''failed'' ?m w)"
    by (simp add: give_up_def rmtree_def mkdtemp_def log_status_def then_do_def f d)
  have "download_body e url tag format_type uid lid placement w =
      (Inr (None, None), log_status lid ''failed'' ?m w)"
    unfolding download_body_def Let_def using assms(1,2,3) g by simp
  then show ?thesis by (simp add: download_youtube_def)
qed

text \<open>
  Claim C7 asks that after a successful adaptive fulfillment the merged file, and
  nothing else, remains in the workspace. The output path is joined from the workspace
  and the video's title; for a title that starts with a slash the join drops the
  workspace, the merged file is written elsewhere, and the workspace is empty when the
  function returns.
\<close>

theorem absolute_title_leaves_workspace_empty:
  "download_youtube (sample_env\<lparr>yt_video := Inr (sample_video\<lparr>yt_title := ''/tmp/clip''\<rparr>)\<rparr>)
     ''https://youtu.be/abc123'' 137 ''video'' 7 3 ''adapt'' sample_world =
   ((Some ''/tmp/clip_abc123.mp4'', Some ''/tmp/tmpk3v9''),
    log_status 3 ''completed'' []
      (sample_world\<lparr>dirs := {''/tmp/tmpk3v9'', ''/tmp''},
         files := {''/tmp/clip_abc123.mp4''}\<rparr>)) \<and>
   workspace_files ''/tmp/tmpk3v9''
     (sample_world\<lparr>dirs := {''/tmp/tmpk3v9'', ''/tmp''},
        files := {''/tmp/clip_abc123.mp4''}\<rparr>) = {}"
  by (simp add: step_defs sample_defs sample_video_id Let_def insert_Diff_if)


text \<open>
  When the output path lies in the workspace and is neither of the two source paths,
  a successful adaptive fulfillment leaves exactly the merged file there.
\<close>

lemma adaptive_success_leaves_merged_file:
  assumes "yt_construct e = None" and "yt_video e = Inr yt"
    and "get_by_itag (yt_streams yt) tag = Some vs" and "download_raises e vs = None"
    and "first (order_by_desc abr (only_audio (yt_streams yt))) = Some au"
    and "download_raises e au = None" and "ffmpeg_raises e = None"
    and vp: "video_path = path_join (temp_dir e) (''video_'' @ default_filename vs)"
    and ap: "audio_path = path_join (temp_dir e) (''audio_'' @ default_filename au)"
    and out: "output_path = path_join (temp_dir e)
        (yt_title yt @ ''_'' @ (case extract_video_id url of None \<Rightarrow> ''None'' | Some v \<Rightarrow> v) @ ''.mp4'')"
    and "output_path \<noteq> video_path" and "output_path \<noteq> audio_path"
    and "inside (temp_dir e) output_path"
    and "workspace_files (temp_dir e) w = {}"
  shows "\<exists>w'. download_youtube e url tag ''video'' uid lid ''adapt'' w =
            ((Some output_path, Some (temp_dir e)), w') \<and>
          workspace_files (temp_dir e) w' = {output_path} \<and>
          video_path \<notin> files w' \<and> audio_path \<notin> files w'"
proof -
  have ne: "video_path \<noteq> audio_path"
    unfolding vp ap by (simp add: path_join_def)
  let ?w6 = "w\<lparr>dirs := insert (temp_dir e) (dirs w),
      files := insert output_path (insert audio_path (insert video_path (files w)))
        - {video_path} - {audio_path}\<rparr>"
  have body: "download_body e url tag ''video'' uid lid ''adapt'' w =
      (Inr (Some output_path, Some (temp_dir e)), log_status lid ''completed'' [] ?w6)"
    unfolding download_body_def Let_def vp ap out
    using assms(1-7) ne [unfolded vp ap] assms(11,12) [unfolded vp ap out]
    by (simp add: download_ok then_do_def mkdtemp_def merge_video_audio_def os_remove_def)
  then have r: "download_youtube e url tag ''video'' uid lid ''adapt'' w =
      ((Some output_path, Some (temp_dir e)), log_status lid ''completed'' [] ?w6)"
    by (simp add: download_youtube_def)
  have fs: "files (log_status lid ''completed'' [] ?w6) =
      insert output_path (files w - {video_path, audio_path})"
    using assms(11,12) by (auto simp: log_status_def)
  from fs assms(13,14)
  have ws: "workspace_files (temp_dir e) (log_status lid ''completed'' [] ?w6) = {output_path}"
    by (auto simp: workspace_files_def)
  from fs assms(11,12) have gone: "video_path \<notin> files (log_status lid ''completed'' [] ?w6)"
    "audio_path \<notin> files (log_status lid ''completed'' [] ?w6)"
    by auto
  from r ws gone show ?thesis by blast
qed


end
